theory Spec2Isabelle
  imports Main "HOL-Library.Sublist"
begin

section \<open>Strings\<close>

text \<open>
  A JavaScript string is modelled as a \<open>string\<close>, one \<open>char\<close> per code unit; the
  model covers the code units \<open>0x00\<close> to \<open>0xFF\<close>. Of the characters that \<open>\s\<close> and
  \<open>trim()\<close> treat as white space, seven lie in this range.
\<close>

definition isSpace :: "char \<Rightarrow> bool" where
  "isSpace c \<longleftrightarrow> c \<in> set [CHR 0x09, CHR 0x0A, CHR 0x0B, CHR 0x0C, CHR 0x0D, CHR 0x20, CHR 0xA0]"

text \<open>\<open>String.prototype.trim\<close>.\<close>

definition trim :: "string \<Rightarrow> string" where
  "trim s = rev (dropWhile isSpace (rev (dropWhile isSpace s)))"

text \<open>\<open>s.includes(p)\<close>: \<open>p\<close> occurs in \<open>s\<close> as a contiguous substring.\<close>

fun includesStr :: "string \<Rightarrow> string \<Rightarrow> bool" where
  "includesStr [] p = (p = [])"
| "includesStr (c # cs) p = (prefix p (c # cs) \<or> includesStr cs p)"

text \<open>
  The canonicalisation of a regular expression with the \<open>i\<close> flag and without the
  \<open>u\<close> flag: a code unit is compared by its upper case, and no code unit above
  \<open>0x7F\<close> is mapped into ASCII.
\<close>

definition toUpperAscii :: "char \<Rightarrow> char" where
  "toUpperAscii c =
     (case map_of (zip ''abcdefghijklmnopqrstuvwxyz'' ''ABCDEFGHIJKLMNOPQRSTUVWXYZ'') c of
        None \<Rightarrow> c
      | Some u \<Rightarrow> u)"

fun prefixCI :: "string \<Rightarrow> string \<Rightarrow> bool" where
  "prefixCI [] s = True"
| "prefixCI (p # ps) [] = False"
| "prefixCI (p # ps) (c # cs) =
     (if toUpperAscii p = toUpperAscii c then prefixCI ps cs else False)"

fun includesCI :: "string \<Rightarrow> string \<Rightarrow> bool" where
  "includesCI [] p = (p = [])"
| "includesCI (c # cs) p = (if prefixCI p (c # cs) then True else includesCI cs p)"

text \<open>
  \<open>s.replace(re, rep)\<close> for a regular expression \<open>re\<close> with the \<open>g\<close> flag and
  a replacement \<open>rep\<close> without \<open>$\<close> patterns. The expression is given by its
  matcher \<open>m\<close>: \<open>m t\<close> is the length of the match of \<open>re\<close> that starts at the
  head of the rest \<open>t\<close> of the string, if there is one. After a match the scan goes on
  behind it; after an empty match it copies one character and goes on.
\<close>

fun gsub :: "(string \<Rightarrow> nat option) \<Rightarrow> string \<Rightarrow> string \<Rightarrow> string" where
  "gsub m rep [] = (case m [] of Some n \<Rightarrow> rep | None \<Rightarrow> [])"
| "gsub m rep (c # cs) =
     (case m (c # cs) of
        None \<Rightarrow> c # gsub m rep cs
      | Some n \<Rightarrow> if n = 0 then rep @ c # gsub m rep cs
                   else rep @ gsub m rep (drop (n - 1) cs))"

text \<open>The matcher of a regular expression that is a literal string \<open>p\<close>.\<close>

definition lit :: "string \<Rightarrow> string \<Rightarrow> nat option" where
  "lit p t = (if prefix p t then Some (length p) else None)"

section \<open>Fragment normaliser\<close>

text \<open>
  The matcher of \<open>/<br\s*\/?>/gi\<close>. The classes \<open>\s\<close>, \<open>/\<close> and \<open>>\<close> are
  disjoint, so the greedy choices are the only ones that can succeed.
\<close>

definition brTag :: "string \<Rightarrow> nat option" where
  "brTag t =
     (case t of
        a # b # c # rest \<Rightarrow>
          if a = CHR ''<'' \<and> toUpperAscii b = CHR ''B'' \<and> toUpperAscii c = CHR ''R'' then
            (let ws = takeWhile isSpace rest;
                 r1 = dropWhile isSpace rest;
                 sl = (case r1 of x # _ \<Rightarrow> if x = CHR ''/'' then 1 else 0 | [] \<Rightarrow> 0);
                 r2 = drop sl r1
             in case r2 of
                  x # _ \<Rightarrow> if x = CHR ''>'' then Some (3 + length ws + sl + 1) else None
                | [] \<Rightarrow> None)
          else None
      | _ \<Rightarrow> None)"

text \<open>The matcher of \<open>/<[^>]*>/g\<close>: from a \<open><\<close> to the first \<open>>\<close> behind it.\<close>

definition anyTag :: "string \<Rightarrow> nat option" where
  "anyTag t =
     (case t of
        a # rest \<Rightarrow>
          if a = CHR ''<'' \<and> CHR ''>'' \<in> set rest
          then Some (1 + length (takeWhile (\<lambda>x. x \<noteq> CHR ''>'') rest) + 1)
          else None
      | [] \<Rightarrow> None)"

text \<open>
  The chain of replacements that \<open>parsePostPage\<close> (and, in the same order,
  \<open>parseUserInfoPage\<close> and \<open>parseMultiPagePost\<close>) applies to the HTML of a content
  element:
  \<^verbatim>\<open>
  html.replace(/<br\s*\/?>/gi, '\n').replace(/<[^>]*>/g, '')
      .replace(/&nbsp;/g, ' ').replace(/&lt;/g, '<').replace(/&gt;/g, '>')
      .replace(/&amp;/g, '&').replace(/&quot;/g, '"').trim()
  \<close>
\<close>

definition decodeEntities :: "string \<Rightarrow> string" where
  "decodeEntities s =
     gsub (lit ''&quot;'') [CHR 0x22]
       (gsub (lit ''&amp;'') ''&''
         (gsub (lit ''&gt;'') ''>''
           (gsub (lit ''&lt;'') ''<''
             (gsub (lit ''&nbsp;'') '' '' s))))"

definition htmlToText :: "string \<Rightarrow> string" where
  "htmlToText html = trim (decodeEntities (gsub anyTag [] (gsub brTag [CHR 0x0A] html)))"

text \<open>
  The content of an element that may be missing: \<open>None\<close> is an empty selection
  (\<open>contentElement.length = 0\<close>), for which the text stays \<open>''\<close>.
\<close>

definition normalizeFragment :: "string option \<Rightarrow> string" where
  "normalizeFragment fragment = (case fragment of None \<Rightarrow> [] | Some html \<Rightarrow> htmlToText html)"

section \<open>Pattern recogniser\<close>

text \<open>The character class \<open>[1-9A-HJ-NP-Za-km-z]\<close>.\<close>

definition isBase58 :: "char \<Rightarrow> bool" where
  "isBase58 c \<longleftrightarrow> c \<in> set ''123456789ABCDEFGHJKLMNPQRSTUVWXYZabcdefghijkmnopqrstuvwxyz''"

text \<open>The character class \<open>\d\<close>.\<close>

definition isDigit :: "char \<Rightarrow> bool" where
  "isDigit c \<longleftrightarrow> c \<in> set ''0123456789''"

text \<open>The character class \<open>[a-zA-Z0-9_-]\<close>.\<close>

definition isLabelChar :: "char \<Rightarrow> bool" where
  "isLabelChar c \<longleftrightarrow>
     c \<in> set ''abcdefghijklmnopqrstuvwxyzABCDEFGHIJKLMNOPQRSTUVWXYZ0123456789_-''"

text \<open>The character class \<open>[A-Za-z0-9]\<close>.\<close>

definition isAlnum :: "char \<Rightarrow> bool" where
  "isAlnum c \<longleftrightarrow> c \<in> set ''ABCDEFGHIJKLMNOPQRSTUVWXYZabcdefghijklmnopqrstuvwxyz0123456789''"

text \<open>
  \<open>[...new Set(xs)]\<close>: the distinct elements of \<open>xs\<close>, each at the place of its
  first occurrence.
\<close>

definition uniq :: "'a list \<Rightarrow> 'a list" where
  "uniq xs = foldl (\<lambda>seen x. if x \<in> set seen then seen else seen @ [x]) [] xs"

text \<open>\<open>s.substring(a, b)\<close>, which swaps its bounds when \<open>a > b\<close> and clamps them.\<close>

definition substring :: "string \<Rightarrow> nat \<Rightarrow> nat \<Rightarrow> string" where
  "substring s a b = take (max a b - min a b) (drop (min a b) s)"

text \<open>\<open>s.replace(p, rep)\<close> for a string \<open>p\<close>: the first occurrence only.\<close>

fun replaceFirst :: "string \<Rightarrow> string \<Rightarrow> string \<Rightarrow> string" where
  "replaceFirst p rep [] = (if p = [] then rep else [])"
| "replaceFirst p rep (c # cs) =
     (if prefix p (c # cs) then rep @ drop (length p) (c # cs) else c # replaceFirst p rep cs)"

definition isValidSolanaAddress :: "string \<Rightarrow> bool" where
  "isValidSolanaAddress address =
     (if address = [] then False
      else if length address < 32 \<or> length address > 44 then False
      else if \<not> list_all isBase58 address then False
      else if list_all isDigit address then False
      else True)"

text \<open>
  The five expressions of \<open>urlPatterns\<close>, each as its \<open>test\<close>. All carry the
  \<open>i\<close> flag.
\<close>

definition urlPatterns :: "(string \<Rightarrow> bool) list" where
  "urlPatterns =
     [\<lambda>t. includesCI t ''http://'' \<or> includesCI t ''https://'',
      \<lambda>t. includesCI t ''www.'',
      \<lambda>t. list_ex (\<lambda>suffix. includesCI t (''.'' @ suffix))
             [''com'', ''org'', ''net'', ''io'', ''co'', ''me'', ''tv'', ''app'', ''xyz'', ''sol'',
              ''scan'', ''explorer''],
      \<lambda>t. includesCI t ''/tx/'',
      \<lambda>t. includesCI t ''/address/'']"

text \<open>
  \<open>isPartOfUrl(text, startIndex, addressLength)\<close>. The lower bounds
  \<open>Math.max(0, startIndex - 200)\<close> and \<open>Math.max(0, startIndex - 4)\<close> are the
  truncated differences of natural numbers.
\<close>

definition isPartOfUrl :: "string \<Rightarrow> nat \<Rightarrow> nat \<Rightarrow> bool" where
  "isPartOfUrl text startIndex addressLength =
     (let beforeText = substring text (startIndex - 200) startIndex;
          afterText = substring text (startIndex + addressLength)
                        (min (length text) (startIndex + addressLength + 200));
          combinedText = beforeText @ afterText;
          immediateBefore = substring text (startIndex - 4) startIndex
      in if immediateBefore = ''/tx/'' \<or> immediateBefore = ''tx/''
            \<or> immediateBefore = ''/address/'' \<or> immediateBefore = ''address/''
         then True
         else list_ex (\<lambda>pattern. pattern combinedText) urlPatterns)"

text \<open>
  The expression
  \<^verbatim>\<open>/(?:^|[^1-9A-HJ-NP-Za-km-z])([1-9A-HJ-NP-Za-km-z]{32,44})(?![1-9A-HJ-NP-Za-km-z])/g\<close>
  tried at index \<open>i\<close>, where the rest of the text is \<open>t\<close>: the length of the whole
  match and the length of what stands before the group. The group can only be a whole
  run of base58 characters: a shorter piece of the run is followed by a base58
  character, which the lookahead refuses. The first alternative \<open>^\<close> holds at index
  0 only.
\<close>

definition addressRegex :: "nat \<Rightarrow> string \<Rightarrow> (nat \<times> nat) option" where
  "addressRegex i t =
     (let run = takeWhile isBase58 t in
      if i = 0 \<and> 32 \<le> length run \<and> length run \<le> 44 then Some (length run, 0)
      else case t of
             [] \<Rightarrow> None
           | c # rest \<Rightarrow>
               (let run' = takeWhile isBase58 rest in
                if \<not> isBase58 c \<and> 32 \<le> length run' \<and> length run' \<le> 44
                then Some (1 + length run', 1) else None))"

text \<open>
  The loop \<open>while ((match = addressRegex.exec(text)) !== null)\<close> from index \<open>i\<close>
  on: for every match the pair of \<open>addressStartIndex\<close> and \<open>match[1]\<close>. The next
  search starts behind the match.
\<close>

fun scanAddresses :: "nat \<Rightarrow> string \<Rightarrow> (nat \<times> string) list" where
  "scanAddresses i [] = []"
| "scanAddresses i (c # cs) =
     (case addressRegex i (c # cs) of
        None \<Rightarrow> scanAddresses (i + 1) cs
      | Some (n, k) \<Rightarrow>
          (i + k, take (n - k) (drop k (c # cs))) # scanAddresses (i + n) (drop (n - 1) cs))"

definition extractSolanaAddressesWithBoundary :: "string \<Rightarrow> string list" where
  "extractSolanaAddressesWithBoundary text =
     (if text = [] then []
      else uniq (map snd
             (filter (\<lambda>(addressStartIndex, address).
                        isValidSolanaAddress address
                        \<and> \<not> isPartOfUrl text addressStartIndex (length address))
                (scanAddresses 0 text))))"

text \<open>
  The expression \<open>/(?<!\S)([a-zA-Z0-9_-]+\.sol)(?=\s|$)/g\<close> tried where the
  character before is \<open>prev\<close> (none at index 0) and the rest of the text is \<open>t\<close>.
  The label can only be the whole run of label characters, since a dot has to follow.
\<close>

definition domainRegex :: "char option \<Rightarrow> string \<Rightarrow> nat option" where
  "domainRegex prev t =
     (let label = takeWhile isLabelChar t; rest = dropWhile isLabelChar t
      in if (case prev of None \<Rightarrow> True | Some p \<Rightarrow> isSpace p)
            \<and> label \<noteq> [] \<and> prefix ''.sol'' rest
            \<and> (case drop 4 rest of [] \<Rightarrow> True | x # _ \<Rightarrow> isSpace x)
         then Some (length label + 4) else None)"

text \<open>\<open>text.match(domainRegex)\<close>: the matches from left to right.\<close>

fun matchDomains :: "char option \<Rightarrow> string \<Rightarrow> string list" where
  "matchDomains prev [] = []"
| "matchDomains prev (c # cs) =
     (case domainRegex prev (c # cs) of
        None \<Rightarrow> matchDomains (Some c) cs
      | Some n \<Rightarrow>
          take n (c # cs) # matchDomains (Some ((c # cs) ! (n - 1))) (drop (n - 1) cs))"

text \<open>The filter of \<open>extractSolanaDomainsFromText\<close>.\<close>

definition validDomain :: "string \<Rightarrow> bool" where
  "validDomain domain =
     (if domain = [] \<or> length domain < 4 then False
      else if \<not> suffix ''.sol'' domain then False
      else (let domainPart = replaceFirst ''.sol'' [] domain
            in if \<not> (domainPart \<noteq> [] \<and> list_all isLabelChar domainPart) then False
               else True))"

definition extractSolanaDomainsFromText :: "string \<Rightarrow> string list" where
  "extractSolanaDomainsFromText text =
     (if text = [] then [] else uniq (filter validDomain (matchDomains None text)))"

record solanaInfo =
  solanaAddresses :: "string list"
  solanaDomains :: "string list"

definition extractSolanaAddressesFromText :: "string \<Rightarrow> solanaInfo" where
  "extractSolanaAddressesFromText text =
     (if text = [] then \<lparr>solanaAddresses = [], solanaDomains = []\<rparr>
      else \<lparr>solanaAddresses = extractSolanaAddressesWithBoundary text,
            solanaDomains = extractSolanaDomainsFromText text\<rparr>)"

text \<open>
  The matcher of \<open>/https?:\/\/[^\s]*\/(s1|...|sn)\/[^\s]*/gi\<close> for the path segments
  \<open>segs\<close>. Behind the scheme the match takes the whole run of characters that are
  not white space, and it exists when some \<open>/si/\<close> occurs in that run.
\<close>

definition urlWith :: "string list \<Rightarrow> string \<Rightarrow> nat option" where
  "urlWith segs t =
     (let scheme = (if prefixCI ''https://'' t then Some 8
                    else if prefixCI ''http://'' t then Some 7 else None)
      in case scheme of
           None \<Rightarrow> None
         | Some k \<Rightarrow>
             (let path = takeWhile (\<lambda>x. \<not> isSpace x) (drop k t)
              in if list_ex (\<lambda>seg. includesCI path (''/'' @ seg @ ''/'')) segs
                 then Some (k + length path) else None))"

definition removeUrlTransactionSignatures :: "string \<Rightarrow> string" where
  "removeUrlTransactionSignatures text =
     (if text = [] then []
      else gsub (urlWith [''txs'']) '' ''
             (gsub (urlWith [''tx'', ''transaction'', ''confirmTransaction'']) '' '' text))"

section \<open>Pages\<close>

text \<open>
  What the operations read from a loaded document \<open>$\<close> through its selectors is
  taken as given. A \<open>replyCell\<close> is one element of \<open>$('.cell[id^="r_"]')\<close>; an
  attribute that is missing is \<open>None\<close>, and so is the HTML of a \<open>.reply_content\<close>
  that the cell does not have.
\<close>

record replyCell =
  cellId :: "string option"
  authorText :: string
  authorHref :: "string option"
  avatarSrc :: "string option"
  contentHtml :: "string option"
  contentImgs :: "(string option \<times> string option) list"
  agoTitle :: "string option"
  agoText :: string
  noText :: string

record pagination =
  hasMultiplePages :: bool
  totalPages :: nat
  currentPage :: nat
  pageUrls :: "(nat \<times> string) list"

text \<open>
  The document: the text of the script elements, the text of the whole page, the
  \<open>href\<close> and the trimmed text of every \<open>.social_label\<close>, the HTML of the first
  \<open>.topic_content\<close>, the reply cells, and the values that \<open>extractReplyUserIds($)\<close>
  and \<open>detectPagination($)\<close> return for it. How these two read their values from the
  document plays no part below; a page count is a natural number.
\<close>

record page =
  scriptText :: string
  pageText :: string
  socialLabels :: "(string option \<times> string) list"
  topicContentHtml :: "string option"
  cells :: "replyCell list"
  docReplyUserIds :: "string list"
  docPagination :: pagination

datatype failure =
    TransportError string
  | TypeError
  | UnsupportedPageKind
  | ParseV2exPageFailed failure
  | MultiPagePostFailed failure

subsection \<open>Profile pages\<close>

text \<open>
  The first match of \<open>/const address = "([A-Za-z0-9]{32,44})"/\<close> in a text: its
  group. The group is followed by a double quote, so it is a whole run of letters and
  digits.
\<close>

fun scriptAddress :: "string \<Rightarrow> string option" where
  "scriptAddress [] = None"
| "scriptAddress (c # cs) =
     (if prefix (''const address = '' @ [CHR 0x22]) (c # cs) then
        (let rest = drop (length (''const address = '' @ [CHR 0x22])) (c # cs);
             run = takeWhile isAlnum rest
         in if 32 \<le> length run \<and> length run \<le> 44
               \<and> prefix [CHR 0x22] (dropWhile isAlnum rest)
            then Some run else scriptAddress cs)
      else scriptAddress cs)"

text \<open>
  What it is for that expression to match at index \<open>i\<close> of a text with the group \<open>a\<close>:
  there stand the words \<open>const address = "\<close>, then \<open>a\<close>, which is 32 to 44 letters and
  digits, then a double quote. \<open>String.prototype.match\<close> returns the match at the least
  such index.
\<close>

definition scriptMatchAt :: "string \<Rightarrow> nat \<Rightarrow> string \<Rightarrow> bool" where
  "scriptMatchAt s i a \<longleftrightarrow>
     prefix ((''const address = '' @ [CHR 0x22]) @ a @ [CHR 0x22]) (drop i s)
     \<and> 32 \<le> length a \<and> length a \<le> 44 \<and> list_all isAlnum a"

record solanaResult =
  solanaAddress :: "string option"
  solanaDomain :: "string option"

definition extractSolanaAddress :: "page \<Rightarrow> solanaResult" where
  "extractSolanaAddress doc =
     (let addressMatch = scriptAddress (scriptText doc);
          sanitizedText = removeUrlTransactionSignatures (pageText doc);
          extracted = extractSolanaAddressesWithBoundary sanitizedText;
          address = (case addressMatch of
                       Some a \<Rightarrow> Some a
                     | None \<Rightarrow> (case extracted of [] \<Rightarrow> None | a # _ \<Rightarrow> Some a));
          domains = extractSolanaDomainsFromText (pageText doc)
      in \<lparr>solanaAddress = address,
          solanaDomain = (case domains of [] \<Rightarrow> None | d # _ \<Rightarrow> Some d)\<rparr>)"

record socialLinks =
  twitter :: "(string \<times> string) option"
  github :: "(string \<times> string) option"
  telegram :: "(string \<times> string) option"
  location :: "(string \<times> string) option"
  website :: "(string \<times> string) option"

text \<open>
  One round of the loop over the \<open>.social_label\<close> elements. On a label without
  \<open>href\<close> the call \<open>href.includes\<close> throws a \<open>TypeError\<close>.
\<close>

definition socialLabel :: "socialLinks \<Rightarrow> string option \<times> string \<Rightarrow> failure + socialLinks" where
  "socialLabel links el =
     (case fst el of
        None \<Rightarrow> Inl TypeError
      | Some href \<Rightarrow>
          Inr (if includesStr href ''twitter.com'' \<or> includesStr href ''x.com''
               then links\<lparr>twitter := Some (href, snd el)\<rparr>
               else if includesStr href ''github.com'' then links\<lparr>github := Some (href, snd el)\<rparr>
               else if includesStr href ''telegram.me''
               then links\<lparr>telegram := Some (href, snd el)\<rparr>
               else if includesStr href ''google.com/maps''
               then links\<lparr>location := Some (href, snd el)\<rparr>
               else if href \<noteq> [] \<and> \<not> prefix ''http'' href
               then links\<lparr>website := Some (href, snd el)\<rparr>
               else links))"

fun socialLabelsLoop :: "socialLinks \<Rightarrow> (string option \<times> string) list \<Rightarrow> failure + socialLinks" where
  "socialLabelsLoop links [] = Inr links"
| "socialLabelsLoop links (el # els) =
     (case socialLabel links el of
        Inl e \<Rightarrow> Inl e
      | Inr links' \<Rightarrow> socialLabelsLoop links' els)"

text \<open>
  The result of \<open>parseUserInfoPage\<close>. The fields \<open>type\<close>, \<open>username\<close>, \<open>userId\<close>,
  \<open>memberId\<close>, \<open>avatar\<close>, \<open>signature\<close>, \<open>joinTime\<close>, \<open>activeRank\<close>, \<open>isPro\<close>,
  \<open>recentReplies\<close> and \<open>parsedAt\<close> are left out: they are read from the document or the
  clock, reading them cannot fail, and nothing else depends on them. The fields
  \<open>solanaAddress\<close> and \<open>solanaDomain\<close> of the result are \<open>userSolanaAddress\<close> and
  \<open>userSolanaDomain\<close> here.
\<close>

record userInfo =
  userUrl :: string
  userSocialLinks :: socialLinks
  userSolanaAddress :: "string option"
  userSolanaDomain :: "string option"

definition parseUserInfoPage :: "page \<Rightarrow> string \<Rightarrow> failure + userInfo" where
  "parseUserInfoPage doc url =
     (case socialLabelsLoop
             \<lparr>twitter = None, github = None, telegram = None, location = None, website = None\<rparr>
             (socialLabels doc) of
        Inl e \<Rightarrow> Inl e
      | Inr links \<Rightarrow>
          (let solanaInfo = extractSolanaAddress doc
           in Inr \<lparr>userUrl = url, userSocialLinks = links,
                   userSolanaAddress = solanaAddress solanaInfo,
                   userSolanaDomain = solanaDomain solanaInfo\<rparr>))"

subsection \<open>Post pages\<close>

record reply =
  replyId :: string
  replyFloor :: string
  replyAuthorName :: string
  replyAuthorId :: string
  replyAuthorAvatar :: string
  replyContent :: string
  replyContentHtml :: string
  replyImages :: "(string \<times> string) list"
  replyTime :: string
  device :: string
  replySolanaAddresses :: "string list"
  replySolanaDomains :: "string list"

text \<open>\<open>a || ''\<close> and \<open>a ? f(a) : ''\<close> for an attribute \<open>a\<close>: a missing and an empty value are both falsy.\<close>

definition orEmpty :: "string option \<Rightarrow> string" where
  "orEmpty a = (case a of None \<Rightarrow> [] | Some v \<Rightarrow> v)"

text \<open>
  The group of the first match of \<open>/via (.+)$/\<close>, or \<open>''\<close>: what stands behind the
  first \<open>via \<close> that is followed, up to the end of the text, by one or more characters
  none of which ends a line.
\<close>

fun viaDevice :: "string \<Rightarrow> string" where
  "viaDevice [] = []"
| "viaDevice (c # cs) =
     (if prefix ''via '' (c # cs) \<and> drop 4 (c # cs) \<noteq> []
         \<and> list_all (\<lambda>x. x \<noteq> CHR 0x0A \<and> x \<noteq> CHR 0x0D) (drop 4 (c # cs))
      then drop 4 (c # cs) else viaDevice cs)"

text \<open>
  The body of the loop over the reply cells, the same in \<open>parsePostPage\<close> and in
  \<open>parseMultiPagePost\<close>: the record that is pushed, or \<open>None\<close> for a cell with
  neither text nor image.
\<close>

definition parseReplyCell :: "replyCell \<Rightarrow> reply option" where
  "parseReplyCell el =
     (let rId = replaceFirst ''r_'' [] (orEmpty (cellId el));
          rAuthorName = trim (authorText el);
          rAuthorId = replaceFirst ''/member/'' [] (orEmpty (authorHref el));
          rAuthorAvatar = orEmpty (avatarSrc el);
          rContentHtml = orEmpty (contentHtml el);
          rImages = map (\<lambda>img. (orEmpty (fst img), orEmpty (snd img)))
                      (case contentHtml el of
                         None \<Rightarrow> []
                       | Some _ \<Rightarrow> filter (\<lambda>img. orEmpty (fst img) \<noteq> []) (contentImgs el));
          rContent = normalizeFragment (contentHtml el);
          rTime = (if orEmpty (agoTitle el) \<noteq> [] then orEmpty (agoTitle el)
                   else trim (agoText el));
          rFloor = trim (noText el);
          rDevice = viaDevice (trim (agoText el));
          solanaInfo = extractSolanaAddressesFromText rContent
      in if rContent \<noteq> [] \<or> rImages \<noteq> [] then
           Some \<lparr>replyId = rId, replyFloor = rFloor, replyAuthorName = rAuthorName,
                 replyAuthorId = rAuthorId, replyAuthorAvatar = rAuthorAvatar,
                 replyContent = rContent, replyContentHtml = rContentHtml,
                 replyImages = rImages, replyTime = rTime, device = rDevice,
                 replySolanaAddresses = solanaAddresses solanaInfo,
                 replySolanaDomains = solanaDomains solanaInfo\<rparr>
         else None)"

definition pageReplies :: "page \<Rightarrow> reply list" where
  "pageReplies doc = List.map_filter parseReplyCell (cells doc)"

record statistics =
  replyCount :: nat
  totalFloors :: nat
  statTotalPages :: "nat option"

text \<open>
  The result of \<open>parsePostPage\<close>, without the fields \<open>type\<close>, \<open>postId\<close>, \<open>title\<close>,
  \<open>author\<close>, \<open>postTime\<close>, \<open>clickCount\<close>, \<open>tags\<close> and \<open>parsedAt\<close>, which are read from
  the document or the clock and which nothing else depends on. \<open>statTotalPages\<close> and
  \<open>postPagination\<close> are the fields \<open>statistics.totalPages\<close> and \<open>pagination\<close>, which
  only \<open>parseMultiPagePost\<close> sets.
\<close>

record postInfo =
  postUrl :: string
  postContent :: string
  replyUserIds :: "string list"
  replies :: "reply list"
  postStatistics :: statistics
  postPagination :: "pagination option"

definition parsePostPage :: "page \<Rightarrow> string \<Rightarrow> postInfo" where
  "parsePostPage doc url =
     (let rs = pageReplies doc
      in \<lparr>postUrl = url,
          postContent = normalizeFragment (topicContentHtml doc),
          replyUserIds = docReplyUserIds doc,
          replies = rs,
          postStatistics =
            \<lparr>replyCount = length rs, totalFloors = length rs + 1, statTotalPages = None\<rparr>,
          postPagination = None\<rparr>)"

section \<open>Fetching\<close>

text \<open>
  The site is a function \<open>env\<close>: \<open>env k url\<close> is what the request number \<open>k\<close> gets
  when it asks for \<open>url\<close>, the document or the message of a transport error. Every
  operation takes the number of requests made before it and, where it makes more than
  one request, returns the number made after it.
\<close>

type_synonym env = "nat \<Rightarrow> string \<Rightarrow> string + page"

datatype pageResult = UserInfo userInfo | PostInfo postInfo

text \<open>
  \<open>parseV2exPage\<close> makes one request. Whatever is thrown inside its \<open>try\<close> is caught
  and thrown again inside a new error.
\<close>

definition parseV2exPage :: "env \<Rightarrow> nat \<Rightarrow> string \<Rightarrow> failure + pageResult" where
  "parseV2exPage env k url =
     (case env k url of
        Inl message \<Rightarrow> Inl (ParseV2exPageFailed (TransportError message))
      | Inr doc \<Rightarrow>
          if includesStr url ''/member/'' then
            (case parseUserInfoPage doc url of
               Inl e \<Rightarrow> Inl (ParseV2exPageFailed e)
             | Inr info \<Rightarrow> Inr (UserInfo info))
          else if includesStr url ''/t/'' then Inr (PostInfo (parsePostPage doc url))
          else Inl (ParseV2exPageFailed UnsupportedPageKind))"

definition parseUserInfo :: "env \<Rightarrow> string \<Rightarrow> nat \<Rightarrow> string \<Rightarrow> failure + pageResult" where
  "parseUserInfo env baseUrl k username = parseV2exPage env k (baseUrl @ ''/member/'' @ username)"

section \<open>Pagination aggregator\<close>

text \<open>The decimal digits of a page number, as the template literal prints it.\<close>

fun showNat :: "nat \<Rightarrow> string" where
  "showNat n =
     (if n < 10 then [''0123456789'' ! n]
      else showNat (n div 10) @ [''0123456789'' ! (n mod 10)])"

declare showNat.simps [simp del]

text \<open>
  The loop \<open>for (let page = 2; page <= pagination.totalPages; page++)\<close>, from \<open>page\<close>
  on: the replies collected and the number of requests made. A page whose request fails
  is skipped.
\<close>

function fetchPages :: "env \<Rightarrow> string \<Rightarrow> nat \<Rightarrow> nat \<Rightarrow> nat \<Rightarrow> reply list \<Rightarrow> reply list \<times> nat" where
  "fetchPages env baseUrl lastPage page k allReplies =
     (if page \<le> lastPage then
        (case env k (baseUrl @ ''?p='' @ showNat page) of
           Inl message \<Rightarrow> fetchPages env baseUrl lastPage (page + 1) (k + 1) allReplies
         | Inr doc \<Rightarrow>
             fetchPages env baseUrl lastPage (page + 1) (k + 1) (allReplies @ pageReplies doc))
      else (allReplies, k))"
  by pat_completeness auto
termination
  by (relation "measure (\<lambda>(env, baseUrl, lastPage, page, k, allReplies). Suc lastPage - page)") auto

declare fetchPages.simps [simp del]

definition parseMultiPagePost :: "env \<Rightarrow> string \<Rightarrow> nat \<Rightarrow> string \<Rightarrow> (failure + postInfo) \<times> nat" where
  "parseMultiPagePost env base k postId =
     (let baseUrl = base @ ''/t/'' @ postId
      in case env k baseUrl of
           Inl message \<Rightarrow> (Inl (MultiPagePostFailed (TransportError message)), k + 1)
         | Inr first \<Rightarrow>
             (let postInfo = parsePostPage first baseUrl;
                  pagination = docPagination first;
                  (allReplies, k') =
                     (if hasMultiplePages pagination \<and> totalPages pagination > 1
                      then fetchPages env baseUrl (totalPages pagination) 2 (k + 1) []
                      else ([], k + 1));
                  allRepliesCombined = replies postInfo @ allReplies;
                  allReplyUserIds =
                     uniq (replyUserIds postInfo
                           @ filter (\<lambda>i. i \<noteq> []) (map replyAuthorId allRepliesCombined))
              in (Inr (postInfo
                        \<lparr>replies := allRepliesCombined,
                         replyUserIds := allReplyUserIds,
                         postStatistics :=
                           \<lparr>replyCount = length allRepliesCombined,
                            totalFloors = length allRepliesCombined + 1,
                            statTotalPages = Some (totalPages pagination)\<rparr>,
                         postPagination := Some pagination\<rparr>),
                  k')))"

section \<open>Batch orchestrator\<close>

text \<open>
  The options are not validated, so \<open>retryCount\<close> can hold any value. The loop reads it
  only in the comparisons \<open>retryAttempts <= finalOptions.retryCount\<close>, which convert it to
  a number first. \<open>Number n\<close> is a finite number; as \<open>retryAttempts\<close> is a whole number, a
  fraction compares like the greatest whole number below it and is given as that.
  \<open>NotANumber\<close> is what \<open>undefined\<close>, \<open>NaN\<close> and every other value that converts to
  \<open>NaN\<close> give: no comparison with it holds. An infinite count is not represented; with
  it a target that fails every time would be tried without end.
\<close>

datatype number = Number int | NotANumber

definition lessEq :: "nat \<Rightarrow> number \<Rightarrow> bool" where
  "lessEq a b = (case b of Number n \<Rightarrow> int a \<le> n | NotANumber \<Rightarrow> False)"

text \<open>
  \<open>finalOptions\<close>, the options of the caller laid over the defaults (\<open>retryCount: 2\<close>,
  \<open>onProgress: null\<close>): \<open>retryCount\<close> is the number of retries and \<open>onProgress\<close> tells
  whether a callback function was given. \<open>timeout\<close>, \<open>delay\<close> and \<open>showProgress\<close> are
  left out: they set how long a request and the pauses may take and whether lines are
  printed, and time and the console are not modelled.
\<close>

record options =
  retryCount :: number
  onProgress :: bool

datatype status = Start | Success | Retry | Error | Complete

text \<open>
  What the callback is called with, without the \<open>message\<close>. \<open>progressUsername\<close> is
  \<open>None\<close> for the \<open>null\<close> of the last call, and \<open>progressUserInfo\<close> is \<open>None\<close> where
  the field is missing.
\<close>

record progress =
  currentIndex :: nat
  totalUsers :: nat
  progressUsername :: "string option"
  progressStatus :: status
  progressUserInfo :: "pageResult option"

text \<open>
  One element of \<open>results\<close>, without its \<open>timestamp\<close>. A field that the object does not
  have is \<open>None\<close>.
\<close>

record outcome =
  username :: string
  success :: bool
  data :: "pageResult option"
  error :: "failure option"
  retryAttempts :: "nat option"

text \<open>
  The state of a batch: the array \<open>results\<close>, the calls of the callback so far, and the
  number of requests made.
\<close>

record batch =
  results :: "outcome list"
  calls :: "progress list"
  requests :: nat

text \<open>The guarded call of the callback, which only observes.\<close>

definition notify :: "options \<Rightarrow> progress \<Rightarrow> batch \<Rightarrow> batch" where
  "notify opts ev st = (if onProgress opts then st\<lparr>calls := calls st @ [ev]\<rparr> else st)"

text \<open>
  The loop \<open>while (retryAttempts <= finalOptions.retryCount && !success)\<close>, entered with
  \<open>success = false\<close>. A success ends it; so does a failure that takes \<open>retryAttempts\<close>
  beyond \<open>retryCount\<close>.
\<close>

function attempts :: "env \<Rightarrow> string \<Rightarrow> options \<Rightarrow> nat \<Rightarrow> nat \<Rightarrow> string \<Rightarrow> nat \<Rightarrow> batch \<Rightarrow> batch" where
  "attempts env baseUrl opts index count name tries st =
     (if lessEq tries (retryCount opts) then
        (case parseUserInfo env baseUrl (requests st) name of
           Inr info \<Rightarrow>
             notify opts
               \<lparr>currentIndex = index, totalUsers = count, progressUsername = Some name,
                progressStatus = Success, progressUserInfo = Some info\<rparr>
               (st\<lparr>requests := requests st + 1,
                   results := results st
                     @ [\<lparr>username = name, success = True, data = Some info, error = None,
                         retryAttempts = None\<rparr>]\<rparr>)
         | Inl e \<Rightarrow>
             if lessEq (tries + 1) (retryCount opts) then
               attempts env baseUrl opts index count name (tries + 1)
                 (notify opts
                    \<lparr>currentIndex = index, totalUsers = count, progressUsername = Some name,
                     progressStatus = Retry, progressUserInfo = None\<rparr>
                    (st\<lparr>requests := requests st + 1\<rparr>))
             else
               (let st' = notify opts
                            \<lparr>currentIndex = index, totalUsers = count,
                             progressUsername = Some name, progressStatus = Error,
                             progressUserInfo = None\<rparr>
                            (st\<lparr>requests := requests st + 1\<rparr>)
                in st'\<lparr>results := results st'
                         @ [\<lparr>username = name, success = False, data = None, error = Some e,
                             retryAttempts = Some (tries + 1)\<rparr>]\<rparr>))
      else st)"
  by pat_completeness auto
termination
  by (relation "measure (\<lambda>(env, baseUrl, opts, index, count, name, tries, st).
        (case retryCount opts of Number n \<Rightarrow> nat (n + 1) | NotANumber \<Rightarrow> 0) - tries)")
    (auto simp: lessEq_def split: number.splits)

declare attempts.simps [simp del]

text \<open>One round of the loop over \<open>usernames\<close>, for the name at index \<open>i\<close>.\<close>

definition processUser :: "env \<Rightarrow> string \<Rightarrow> options \<Rightarrow> nat \<Rightarrow> nat \<Rightarrow> string \<Rightarrow> batch \<Rightarrow> batch" where
  "processUser env baseUrl opts count i name st =
     attempts env baseUrl opts (i + 1) count name 0
       (notify opts
          \<lparr>currentIndex = i + 1, totalUsers = count, progressUsername = Some name,
           progressStatus = Start, progressUserInfo = None\<rparr> st)"

fun processUsers :: "env \<Rightarrow> string \<Rightarrow> options \<Rightarrow> nat \<Rightarrow> nat \<Rightarrow> string list \<Rightarrow> batch \<Rightarrow> batch" where
  "processUsers env baseUrl opts count i [] st = st"
| "processUsers env baseUrl opts count i (name # names) st =
     processUsers env baseUrl opts count (i + 1) names
       (processUser env baseUrl opts count i name st)"

text \<open>
  \<open>parseMultipleUsers\<close>, started after \<open>k\<close> requests: the state at its \<open>return\<close>,
  whose \<open>results\<close> is the value returned.
\<close>

definition parseMultipleUsers :: "env \<Rightarrow> string \<Rightarrow> nat \<Rightarrow> string list \<Rightarrow> options \<Rightarrow> batch" where
  "parseMultipleUsers env baseUrl k usernames opts =
     notify opts
       \<lparr>currentIndex = length usernames, totalUsers = length usernames,
        progressUsername = None, progressStatus = Complete, progressUserInfo = None\<rparr>
       (processUsers env baseUrl opts (length usernames) 0 usernames
          \<lparr>results = [], calls = [], requests = k\<rparr>)"


section \<open>Sample documents and sites\<close>

text \<open>
  Two runs of 44 base58 characters, a run of 45, and a run of 44 digits.
\<close>

definition sampleAddress :: string where
  "sampleAddress = ''3Bm45678923456789abcdefghijkmnopqrstuvwxyzAB''"

definition sampleSignature :: string where
  "sampleSignature = ''4kY45678923456789abcdefghijkmnopqrstuvwxyzAB''"

definition sampleRun45 :: string where
  "sampleRun45 = sampleAddress @ ''C''"

definition digitRun44 :: string where
  "digitRun44 = replicate 44 (CHR ''1'')"

definition noPagination :: pagination where
  "noPagination = \<lparr>hasMultiplePages = False, totalPages = 1, currentPage = 1, pageUrls = []\<rparr>"

definition threePages :: pagination where
  "threePages =
     \<lparr>hasMultiplePages = True, totalPages = 3, currentPage = 1,
      pageUrls = [(1, ''?p=1''), (2, ''?p=2''), (3, ''?p=3'')]\<rparr>"

text \<open>
  A script in which \<open>const address\<close> is first given a run of 45 characters and then, at
  index 65, a run of 44.
\<close>

definition sampleScript :: string where
  "sampleScript =
     ''const address = '' @ [CHR 0x22] @ sampleRun45 @ [CHR 0x22] @ ''; const address = ''
       @ [CHR 0x22] @ sampleAddress @ [CHR 0x22] @ '';''"

text \<open>A profile page with the given script text and page text.\<close>

definition profileDoc :: "string \<Rightarrow> string \<Rightarrow> page" where
  "profileDoc script text =
     \<lparr>scriptText = script, pageText = text, socialLabels = [], topicContentHtml = None,
      cells = [], docReplyUserIds = [], docPagination = noPagination\<rparr>"

text \<open>The cell of the reply with anchor \<open>r_n\<close>, and a page of a thread with such cells.\<close>

definition textCell :: "string \<Rightarrow> replyCell" where
  "textCell n =
     \<lparr>cellId = Some (''r_'' @ n), authorText = ''someone'',
      authorHref = Some ''/member/someone'', avatarSrc = None,
      contentHtml = Some (''reply '' @ n), contentImgs = [], agoTitle = None,
      agoText = ''1 day ago'', noText = n\<rparr>"

definition threadDoc :: "string list \<Rightarrow> page" where
  "threadDoc ns =
     \<lparr>scriptText = [], pageText = [], socialLabels = [], topicContentHtml = Some ''topic'',
      cells = map textCell ns, docReplyUserIds = [], docPagination = threePages\<rparr>"

text \<open>
  A thread of three pages on which the reply 5 stands both at the end of page 1 and at
  the start of page 2.
\<close>

definition sampleThread :: env where
  "sampleThread k url =
     (if url = ''https://v2ex.com/t/1'' then Inr (threadDoc [''1'', ''2'', ''3'', ''4'', ''5''])
      else if url = ''https://v2ex.com/t/1?p=2''
      then Inr (threadDoc [''5'', ''6'', ''7'', ''8'', ''9''])
      else if url = ''https://v2ex.com/t/1?p=3'' then Inr (threadDoc [''10'', ''11'', ''12''])
      else Inl ''Request failed with status code 404'')"

text \<open>A site whose first two requests time out, and a site on which the profile of B always does.\<close>

definition flakySite :: env where
  "flakySite k url =
     (if k < 2 then Inl ''timeout of 10000ms exceeded'' else Inr (profileDoc [] ''hello''))"


section \<open>Properties of the fragment normaliser\<close>

subsection \<open>Replacements that find nothing\<close>

lemma gsub_no_match:
  "\<forall>t\<in>set (suffixes s). m t = None \<Longrightarrow> gsub m rep s = s"
  by (induction s) auto

lemma lit_no_match:
  "\<not> includesStr s p \<Longrightarrow> \<forall>t\<in>set (suffixes s). lit p t = None"
  by (induction s) (auto simp: lit_def)

lemma includesStr_iff: "includesStr s p \<longleftrightarrow> (\<exists>a b. s = a @ p @ b)"
proof (induction s)
  case Nil
  then show ?case by auto
next
  case (Cons c cs)
  show ?case
  proof
    assume "includesStr (c # cs) p"
    then consider "prefix p (c # cs)" | "includesStr cs p" by auto
    then show "\<exists>a b. c # cs = a @ p @ b"
    proof cases
      case 1
      then obtain b where "c # cs = p @ b" by (auto simp: prefix_def)
      then have "c # cs = [] @ p @ b" by simp
      then show ?thesis by blast
    next
      case 2
      with Cons obtain a b where "cs = a @ p @ b" by blast
      then have "c # cs = (c # a) @ p @ b" by simp
      then show ?thesis by blast
    qed
  next
    assume "\<exists>a b. c # cs = a @ p @ b"
    then obtain a b where ab: "c # cs = a @ p @ b" by blast
    show "includesStr (c # cs) p"
    proof (cases a)
      case Nil
      with ab have "prefix p (c # cs)" by (simp add: prefix_def)
      then show ?thesis by simp
    next
      case (Cons x a')
      with ab have "cs = a' @ p @ b" by simp
      with Cons.IH show ?thesis by auto
    qed
  qed
qed

lemma includesStr_mid: "includesStr m p \<Longrightarrow> includesStr (a @ m @ b) p"
  unfolding includesStr_iff
  by (metis append.assoc)

lemma anyTag_iff: "anyTag t \<noteq> None \<longleftrightarrow> (\<exists>rest. t = CHR ''<'' # rest \<and> CHR ''>'' \<in> set rest)"
  by (auto simp: anyTag_def split: list.splits)

lemma anyTag_mid:
  assumes "\<forall>t\<in>set (suffixes (a @ m @ b)). anyTag t = None"
  shows "\<forall>t\<in>set (suffixes m). anyTag t = None"
proof
  fix t assume "t \<in> set (suffixes m)"
  then obtain u where m: "m = u @ t" by (auto simp: suffix_def)
  have "anyTag (t @ b) = None"
    using assms m by (auto simp: suffix_def)
  then show "anyTag t = None"
    using anyTag_iff[of t] anyTag_iff[of "t @ b"]
    by (cases "anyTag t") auto
qed

lemma brTag_anyTag: "anyTag t = None \<Longrightarrow> brTag t = None"
proof (rule ccontr)
  assume a: "anyTag t = None" and b: "brTag t \<noteq> None"
  from b obtain c1 c2 rest where t: "t = CHR ''<'' # c1 # c2 # rest"
    and r: "(case drop (case dropWhile isSpace rest of
                          x # _ \<Rightarrow> if x = CHR ''/'' then 1 else 0
                        | [] \<Rightarrow> 0)
                   (dropWhile isSpace rest) of
               x # _ \<Rightarrow> x = CHR ''>''
             | [] \<Rightarrow> False)"
    by (auto simp: brTag_def Let_def split: list.splits if_splits)
  from r have "CHR ''>'' \<in> set (dropWhile isSpace rest)"
    by (auto split: list.splits if_splits dest: in_set_dropD)
  then have "CHR ''>'' \<in> set rest" by (rule set_dropWhileD)
  with t a show False by (auto simp: anyTag_def)
qed

lemma trim_decomp: "\<exists>a b. s = a @ trim s @ b"
proof -
  let ?d = "dropWhile isSpace s"
  have "s = takeWhile isSpace s @ ?d" by simp
  moreover have "rev ?d = takeWhile isSpace (rev ?d) @ dropWhile isSpace (rev ?d)" by simp
  then have "?d = rev (dropWhile isSpace (rev ?d)) @ rev (takeWhile isSpace (rev ?d))"
    by (metis rev_append rev_rev_ident)
  ultimately have "s = takeWhile isSpace s @ trim s @ rev (takeWhile isSpace (rev ?d))"
    by (simp add: trim_def)
  then show ?thesis by blast
qed

lemma trim_idem: "trim (trim s) = trim s"
proof -
  let ?d = "dropWhile isSpace s"
  let ?e = "rev (dropWhile isSpace (rev ?d))"
  have d: "?d = [] \<or> \<not> isSpace (hd ?d)"
    by (metis hd_dropWhile)
  have de: "?d = ?e @ rev (takeWhile isSpace (rev ?d))"
    by (metis rev_append rev_rev_ident takeWhile_dropWhile_id)
  have "?e = [] \<or> \<not> isSpace (hd ?e)"
  proof (cases "?e = []")
    case False
    then have "hd ?d = hd ?e" using de by (metis hd_append2)
    moreover have "?d \<noteq> []" using False de by (metis Nil_is_append_conv)
    ultimately show ?thesis using d by auto
  qed simp
  then have "dropWhile isSpace ?e = ?e"
    by (simp add: dropWhile_eq_self_iff)
  then have "trim ?e = rev (dropWhile isSpace (dropWhile isSpace (rev ?d)))"
    by (simp add: trim_def)
  also have "\<dots> = ?e"
    by (simp add: dropWhile_dropWhile1)
  finally show ?thesis by (simp add: trim_def)
qed

lemma htmlToText_plain:
  assumes "\<forall>t\<in>set (suffixes f). anyTag t = None"
    and "\<forall>e\<in>set [''&nbsp;'', ''&lt;'', ''&gt;'', ''&amp;'', ''&quot;'']. \<not> includesStr f e"
  shows "htmlToText f = trim f"
proof -
  have br: "gsub brTag [CHR 0x0A] f = f"
    using assms(1) by (intro gsub_no_match) (auto intro: brTag_anyTag)
  have tag: "gsub anyTag [] f = f"
    using assms(1) by (rule gsub_no_match)
  have ent: "gsub (lit e) r f = f" if "e \<in> set [''&nbsp;'', ''&lt;'', ''&gt;'', ''&amp;'', ''&quot;'']" for e r
    using assms(2) that by (intro gsub_no_match lit_no_match) blast
  have "decodeEntities f = f"
    unfolding decodeEntities_def by (simp add: ent)
  then show ?thesis by (simp add: htmlToText_def br tag)
qed


text \<open>
  C3. The chain decodes the five entities \<open>&nbsp;\<close>, \<open>&lt;\<close>, \<open>&gt;\<close>, \<open>&amp;\<close>
  and \<open>&quot;\<close> in this order, so \<open>&amp;\<close> is not the last one: \<open>&quot;\<close> comes
  after it. The text \<open>&amp;lt;\<close> is decoded once, to \<open>&lt;\<close>; the text
  \<open>&amp;quot;\<close> is decoded twice, first to \<open>&quot;\<close> and then to the double quote.
\<close>

theorem normalize_amp_quot_decoded_twice:
  "normalizeFragment (Some ''&amp;quot;'') = [CHR 0x22]
   \<and> normalizeFragment (Some ''&amp;lt;'') = ''&lt;''"
  by code_simp

text \<open>
  C9. For every fragment \<open>f\<close> in which no tag starts (no rest of \<open>f\<close> begins with
  a match of \<open><[^>]*>\<close>, which covers the line breaks) and in which none of the five
  entities occurs, normalising the normalised text gives the normalised text again.
\<close>

theorem normalize_idempotent:
  assumes "\<forall>t\<in>set (suffixes f). anyTag t = None"
    and "\<forall>e\<in>set [''&nbsp;'', ''&lt;'', ''&gt;'', ''&amp;'', ''&quot;'']. \<not> includesStr f e"
  shows "normalizeFragment (Some (normalizeFragment (Some f))) = normalizeFragment (Some f)"
proof -
  obtain a b where f: "f = a @ trim f @ b" using trim_decomp by blast
  have 1: "\<forall>t\<in>set (suffixes (trim f)). anyTag t = None"
    using assms(1) f anyTag_mid by metis
  have 2: "\<forall>e\<in>set [''&nbsp;'', ''&lt;'', ''&gt;'', ''&amp;'', ''&quot;'']. \<not> includesStr (trim f) e"
    using assms(2) f includesStr_mid by metis
  have "htmlToText (trim f) = trim (trim f)"
    using 1 2 by (rule htmlToText_plain)
  then show ?thesis
    using htmlToText_plain[OF assms] by (simp add: normalizeFragment_def trim_idem)
qed

theorem normalize_idempotent_witness:
  "list_all (\<lambda>t. anyTag t = None) (suffixes ''  a < b &amp c  '')
   \<and> list_all (\<lambda>e. \<not> includesStr ''  a < b &amp c  '' e)
         [''&nbsp;'', ''&lt;'', ''&gt;'', ''&amp;'', ''&quot;'']
   \<and> normalizeFragment (Some ''  a < b &amp c  '') = ''a < b &amp c''
   \<and> normalizeFragment (Some (normalizeFragment (Some ''  a < b &amp c  '')))
       = normalizeFragment (Some ''  a < b &amp c  '')"
proof -
  have h1: "\<forall>t\<in>set (suffixes ''  a < b &amp c  ''). anyTag t = None"
    by code_simp
  have h2: "\<forall>e\<in>set [''&nbsp;'', ''&lt;'', ''&gt;'', ''&amp;'', ''&quot;''].
              \<not> includesStr ''  a < b &amp c  '' e"
    by code_simp
  have v: "normalizeFragment (Some ''  a < b &amp c  '') = ''a < b &amp c''"
    by code_simp
  show ?thesis
    using h1 h2 v normalize_idempotent[OF h1 h2] unfolding list_all_iff by blast
qed

section \<open>Properties of the pattern recogniser\<close>

subsection \<open>Deduplication\<close>

lemma uniq_acc_set:
  "set (foldl (\<lambda>seen x. if x \<in> set seen then seen else seen @ [x]) acc xs) = set acc \<union> set xs"
  by (induction xs arbitrary: acc) auto

lemma set_uniq: "set (uniq xs) = set xs"
  by (simp add: uniq_def uniq_acc_set)

lemma uniq_acc_distinct:
  "distinct acc \<Longrightarrow> distinct (foldl (\<lambda>seen x. if x \<in> set seen then seen else seen @ [x]) acc xs)"
  by (induction xs arbitrary: acc) auto

lemma distinct_uniq: "distinct (uniq xs)"
  by (simp add: uniq_def uniq_acc_distinct)


subsection \<open>Domains\<close>

lemma domainRegex_SomeD:
  assumes "domainRegex prev t = Some n"
  shows "\<exists>label post. t = label @ ''.sol'' @ post \<and> n = length label + 4
           \<and> label \<noteq> [] \<and> list_all isLabelChar label
           \<and> (prev = None \<or> (\<exists>p. prev = Some p \<and> isSpace p))
           \<and> (post = [] \<or> isSpace (hd post))"
proof -
  let ?label = "takeWhile isLabelChar t" and ?rest = "dropWhile isLabelChar t"
  from assms have p: "case prev of None \<Rightarrow> True | Some p \<Rightarrow> isSpace p"
    and l: "?label \<noteq> []" and r: "prefix ''.sol'' ?rest"
    and e: "case drop 4 ?rest of [] \<Rightarrow> True | x # _ \<Rightarrow> isSpace x"
    and n: "n = length ?label + 4"
    by (auto simp: domainRegex_def Let_def split: if_splits)
  from r obtain post where post: "?rest = ''.sol'' @ post"
    by (auto simp: prefix_def)
  have "t = ?label @ ''.sol'' @ post"
    using post by (metis takeWhile_dropWhile_id)
  moreover have "list_all isLabelChar ?label"
    by (simp add: list_all_iff) (meson set_takeWhileD)
  moreover have "post = [] \<or> isSpace (hd post)"
    using e post by (cases post) auto
  moreover have "prev = None \<or> (\<exists>p. prev = Some p \<and> isSpace p)"
    using p by (cases prev) auto
  ultimately show ?thesis using l n by blast
qed

lemma matchDomains_sound:
  "d \<in> set (matchDomains prev t) \<Longrightarrow>
     \<exists>a b. t = a @ d @ b
       \<and> domainRegex (if a = [] then prev else Some (last a)) (d @ b) = Some (length d)"
proof (induction prev t rule: matchDomains.induct)
  case (1 prev)
  then show ?case by simp
next
  case (2 prev c cs)
  show ?case
  proof (cases "domainRegex prev (c # cs)")
    case None
    with 2 obtain a b where ab: "cs = a @ d @ b"
      and m: "domainRegex (if a = [] then Some c else Some (last a)) (d @ b) = Some (length d)"
      by auto
    have "c # cs = (c # a) @ d @ b" using ab by simp
    moreover have "domainRegex (if c # a = [] then prev else Some (last (c # a))) (d @ b)
                     = Some (length d)"
      using m by auto
    ultimately show ?thesis by blast
  next
    case (Some n)
    then obtain label post where t: "c # cs = label @ ''.sol'' @ post"
      and n: "n = length label + 4"
      using domainRegex_SomeD by blast
    have len: "n \<le> length (c # cs)" and pos: "0 < n"
      using n arg_cong[OF t, of length] by auto
    from 2(3) Some consider "d = take n (c # cs)"
      | "d \<in> set (matchDomains (Some ((c # cs) ! (n - 1))) (drop (n - 1) cs))"
      by auto
    then show ?thesis
    proof cases
      case 1
      then have "c # cs = [] @ d @ drop n (c # cs)" by simp
      moreover have "length d = n" using 1 len by simp
      moreover have "d @ drop n (c # cs) = c # cs" using 1 by simp
      ultimately show ?thesis using Some
        by (metis (full_types))
    next
      case 2
      with "2.IH"(2)[OF Some] obtain a b where ab: "drop (n - 1) cs = a @ d @ b"
        and m: "domainRegex (if a = [] then Some ((c # cs) ! (n - 1)) else Some (last a)) (d @ b)
                  = Some (length d)"
        by blast
      let ?a = "take n (c # cs) @ a"
      have dr: "drop (n - 1) cs = drop n (c # cs)"
        using pos by (cases n) auto
      have "c # cs = ?a @ d @ b"
        using ab dr by (metis append.assoc append_take_drop_id)
      moreover have "take n (c # cs) \<noteq> []" using pos by auto
      moreover have "last (take n (c # cs)) = (c # cs) ! (n - 1)"
      proof -
        have "length (take n (c # cs)) = n" using len by simp
        then have "last (take n (c # cs)) = take n (c # cs) ! (n - 1)"
          using \<open>take n (c # cs) \<noteq> []\<close> last_conv_nth by metis
        also have "\<dots> = (c # cs) ! (n - 1)" using pos by (intro nth_take) simp
        finally show ?thesis .
      qed
      ultimately have "c # cs = ?a @ d @ b
          \<and> domainRegex (if ?a = [] then prev else Some (last ?a)) (d @ b) = Some (length d)"
        using m by (cases "a = []") auto
      then show ?thesis by blast
    qed
  qed
qed

lemma extractSolanaDomains_sound:
  assumes "d \<in> set (extractSolanaDomainsFromText text)"
  shows "\<exists>pre label post. text = pre @ label @ ''.sol'' @ post \<and> d = label @ ''.sol''
           \<and> label \<noteq> [] \<and> list_all isLabelChar label
           \<and> (pre = [] \<or> isSpace (last pre)) \<and> (post = [] \<or> isSpace (hd post))"
proof -
  from assms have "d \<in> set (matchDomains None text)"
    by (auto simp: extractSolanaDomainsFromText_def set_uniq split: if_splits)
  then obtain a b where t: "text = a @ d @ b"
    and m: "domainRegex (if a = [] then None else Some (last a)) (d @ b) = Some (length d)"
    using matchDomains_sound by blast
  from domainRegex_SomeD[OF m] obtain label post where
    db: "d @ b = label @ ''.sol'' @ post" and n: "length d = length label + 4"
    and l: "label \<noteq> []" "list_all isLabelChar label"
    and p: "(if a = [] then None else Some (last a)) = None
            \<or> (\<exists>p. (if a = [] then None else Some (last a)) = Some p \<and> isSpace p)"
    and e: "post = [] \<or> isSpace (hd post)"
    by blast
  have "length d = length (label @ ''.sol'')" using n by simp
  with db have "d = label @ ''.sol'' \<and> b = post"
    by (metis append.assoc append_eq_append_conv)
  moreover have "a = [] \<or> isSpace (last a)"
    using p by (auto split: if_splits)
  ultimately show ?thesis using t l e by (metis append.assoc)
qed

text \<open>
  C6. In \<open>send to myname.sol please\<close> the domains found are exactly \<open>myname.sol\<close>; in
  \<open>visit example.solutions\<close> none is found. In every text, a domain that is found
  is a label of one or more characters of \<open>[a-zA-Z0-9_-]\<close> followed by \<open>.sol\<close>, and it
  stands in the text between white space or the edges of the text.
\<close>

theorem findDomains_bounded:
  "extractSolanaDomainsFromText ''send to myname.sol please'' = [''myname.sol'']
   \<and> extractSolanaDomainsFromText ''visit example.solutions'' = []
   \<and> (\<forall>text d. d \<in> set (extractSolanaDomainsFromText text) \<longrightarrow>
         (\<exists>pre label post. text = pre @ label @ ''.sol'' @ post \<and> d = label @ ''.sol''
            \<and> label \<noteq> [] \<and> list_all isLabelChar label
            \<and> (pre = [] \<or> isSpace (last pre)) \<and> (post = [] \<or> isSpace (hd post))))"
proof (intro conjI allI impI)
  show "extractSolanaDomainsFromText ''send to myname.sol please'' = [''myname.sol'']"
    by code_simp
  show "extractSolanaDomainsFromText ''visit example.solutions'' = []"
    by code_simp
qed (rule extractSolanaDomains_sound)

theorem findDomains_bounded_witness:
  "''myname.sol'' \<in> set (extractSolanaDomainsFromText ''send to myname.sol please'')
   \<and> (\<exists>pre label post. ''send to myname.sol please'' = pre @ label @ ''.sol'' @ post
         \<and> ''myname.sol'' = label @ ''.sol''
         \<and> label \<noteq> [] \<and> list_all isLabelChar label
         \<and> (pre = [] \<or> isSpace (last pre)) \<and> (post = [] \<or> isSpace (hd post)))"
proof -
  have "''myname.sol'' \<in> set (extractSolanaDomainsFromText ''send to myname.sol please'')"
    by code_simp
  then show ?thesis using findDomains_bounded by blast
qed

subsection \<open>Addresses\<close>

lemma addressRegex_SomeD:
  assumes "addressRegex i t = Some (n, k)"
  shows "\<exists>run post. t = take k t @ run @ post \<and> n = k + length run
           \<and> 32 \<le> length run \<and> length run \<le> 44 \<and> list_all isBase58 run
           \<and> (post = [] \<or> \<not> isBase58 (hd post))
           \<and> (k = 0 \<and> i = 0 \<or> k = 1 \<and> t \<noteq> [] \<and> \<not> isBase58 (hd t))"
proof -
  have run: "list_all isBase58 (takeWhile isBase58 u)
      \<and> (dropWhile isBase58 u = [] \<or> \<not> isBase58 (hd (dropWhile isBase58 u)))" for u
  proof
    show "list_all isBase58 (takeWhile isBase58 u)"
      unfolding list_all_iff by (blast dest: set_takeWhileD)
    show "dropWhile isBase58 u = [] \<or> \<not> isBase58 (hd (dropWhile isBase58 u))"
      using hd_dropWhile[of isBase58 u] by blast
  qed
  show ?thesis
  proof (cases "i = 0 \<and> 32 \<le> length (takeWhile isBase58 t) \<and> length (takeWhile isBase58 t) \<le> 44")
    case True
    with assms have "n = length (takeWhile isBase58 t)" "k = 0"
      by (auto simp: addressRegex_def Let_def)
    then show ?thesis using True run[of t]
      by (intro exI[of _ "takeWhile isBase58 t"] exI[of _ "dropWhile isBase58 t"]) simp
  next
    case False
    with assms obtain c rest where t: "t = c # rest" and c: "\<not> isBase58 c"
      and len: "32 \<le> length (takeWhile isBase58 rest)" "length (takeWhile isBase58 rest) \<le> 44"
      and n: "n = 1 + length (takeWhile isBase58 rest)" and k: "k = 1"
      by (auto simp: addressRegex_def Let_def split: list.splits if_splits)
    show ?thesis using c len n k t run[of rest]
      by (intro exI[of _ "takeWhile isBase58 rest"] exI[of _ "dropWhile isBase58 rest"]) simp
  qed
qed

lemma scanAddresses_sound:
  "(j, a) \<in> set (scanAddresses i t) \<Longrightarrow>
     \<exists>pre post. t = pre @ a @ post \<and> j = i + length pre
       \<and> 32 \<le> length a \<and> length a \<le> 44 \<and> list_all isBase58 a
       \<and> (post = [] \<or> \<not> isBase58 (hd post))
       \<and> (pre = [] \<and> i = 0 \<or> pre \<noteq> [] \<and> \<not> isBase58 (last pre))"
proof (induction i t rule: scanAddresses.induct)
  case (1 i)
  then show ?case by simp
next
  case (2 i c cs)
  show ?case
  proof (cases "addressRegex i (c # cs)")
    case None
    with 2 obtain pre post where p: "cs = pre @ a @ post" "j = i + 1 + length pre"
      "32 \<le> length a" "length a \<le> 44" "list_all isBase58 a"
      "post = [] \<or> \<not> isBase58 (hd post)" "pre \<noteq> []" "\<not> isBase58 (last pre)"
      by fastforce
    then have "c # cs = (c # pre) @ a @ post \<and> j = i + length (c # pre)
        \<and> c # pre \<noteq> [] \<and> \<not> isBase58 (last (c # pre))"
      by simp
    with p show ?thesis by blast
  next
    case (Some nk)
    obtain n k where nk: "nk = (n, k)" by (cases nk)
    from addressRegex_SomeD[OF Some[unfolded nk]] obtain run post where
      t: "c # cs = take k (c # cs) @ run @ post" and n: "n = k + length run"
      and r: "32 \<le> length run" "length run \<le> 44" "list_all isBase58 run"
      and e: "post = [] \<or> \<not> isBase58 (hd post)"
      and k: "k = 0 \<and> i = 0 \<or> k = 1 \<and> \<not> isBase58 c"
      by auto
    have lk: "length (take k (c # cs)) = k" using k by auto
    have run: "take (n - k) (drop k (c # cs)) = run"
      using t n lk by (metis add_diff_cancel_left' append_eq_conv_conj)
    have rest: "drop (n - 1) cs = post"
    proof -
      have "drop n (c # cs) = post"
        using t n lk by (metis append.assoc append_eq_conv_conj length_append)
      moreover have "0 < n" using n r(1) by arith
      ultimately show ?thesis by (cases n) auto
    qed
    from 2(3) Some nk consider "(j, a) = (i + k, take (n - k) (drop k (c # cs)))"
      | "(j, a) \<in> set (scanAddresses (i + n) (drop (n - 1) cs))"
      by auto
    then show ?thesis
    proof cases
      case 1
      then have "j = i + length (take k (c # cs))" "a = run" using lk run by auto
      moreover have "take k (c # cs) = [] \<and> i = 0
          \<or> take k (c # cs) \<noteq> [] \<and> \<not> isBase58 (last (take k (c # cs)))"
        using k by auto
      ultimately show ?thesis using t r e by blast
    next
      case 2
      from "2.IH"(2)[OF Some nk[symmetric] 2] obtain pre' post' where
        p: "drop (n - 1) cs = pre' @ a @ post'" "j = i + n + length pre'"
        "32 \<le> length a" "length a \<le> 44" "list_all isBase58 a"
        "post' = [] \<or> \<not> isBase58 (hd post')" "pre' \<noteq> []" "\<not> isBase58 (last pre')"
        using n r by fastforce
      let ?pre = "take k (c # cs) @ run @ pre'"
      have "c # cs = ?pre @ a @ post'" using t rest p(1) by simp
      moreover have "j = i + length ?pre" using p(2) n lk by simp
      moreover have "?pre \<noteq> [] \<and> \<not> isBase58 (last ?pre)" using p(7,8) by simp
      ultimately show ?thesis using p by blast
    qed
  qed
qed

text \<open>Two runs of base58 characters that are bounded on both sides and overlap are one run.\<close>

lemma bounded_runs_overlap:
  assumes eq: "pre @ a @ post = p @ r @ q"
    and a: "list_all isBase58 a" and r: "list_all isBase58 r"
    and ba: "pre = [] \<or> \<not> isBase58 (last pre)" "post = [] \<or> \<not> isBase58 (hd post)"
    and br: "p = [] \<or> \<not> isBase58 (last p)" "q = [] \<or> \<not> isBase58 (hd q)"
    and ov: "length pre < length p + length r" "length p < length pre + length a"
  shows "pre = p \<and> a = r"
proof -
  let ?t = "pre @ a @ post"
  have inA: "isBase58 (?t ! i)" if "length pre \<le> i" "i < length pre + length a" for i
  proof -
    have "i - length pre < length a" using that by arith
    moreover from this have "?t ! i = a ! (i - length pre)"
      using that by (simp add: nth_append)
    ultimately show ?thesis using a by (simp add: list_all_length)
  qed
  have inR: "isBase58 (?t ! i)" if "length p \<le> i" "i < length p + length r" for i
  proof -
    have "i - length p < length r" using that by arith
    moreover from this have "(p @ r @ q) ! i = r ! (i - length p)"
      using that by (simp add: nth_append)
    ultimately show ?thesis using r eq by (simp add: list_all_length)
  qed
  have lastpre: "\<not> isBase58 (?t ! (length pre - 1))" if "pre \<noteq> []"
  proof -
    have "?t ! (length pre - 1) = last pre"
      using that by (simp add: nth_append last_conv_nth)
    then show ?thesis using ba(1) that by simp
  qed
  have lastp: "\<not> isBase58 (?t ! (length p - 1))" if "p \<noteq> []"
  proof -
    have "(p @ r @ q) ! (length p - 1) = last p"
      using that by (simp add: nth_append last_conv_nth)
    then show ?thesis using br(1) that eq by simp
  qed
  have hdpost: "\<not> isBase58 (?t ! (length pre + length a))" if "post \<noteq> []"
  proof -
    have "?t ! (length pre + length a) = hd post"
      using that by (simp add: nth_append hd_conv_nth)
    then show ?thesis using ba(2) that by simp
  qed
  have hdq: "\<not> isBase58 (?t ! (length p + length r))" if "q \<noteq> []"
  proof -
    have "(p @ r @ q) ! (length p + length r) = hd q"
      using that by (simp add: nth_append hd_conv_nth)
    then show ?thesis using br(2) that eq by simp
  qed
  have len: "length pre + length a + length post = length p + length r + length q"
    using arg_cong[OF eq, of length] by simp
  have 1: "length pre = length p"
  proof (rule ccontr)
    assume "length pre \<noteq> length p"
    then consider "length pre < length p" | "length p < length pre" by linarith
    then show False
    proof cases
      case 1
      then have "p \<noteq> []" by auto
      moreover have "isBase58 (?t ! (length p - 1))" using 1 ov by (intro inA) auto
      ultimately show False using lastp by blast
    next
      case 2
      then have "pre \<noteq> []" by auto
      moreover have "isBase58 (?t ! (length pre - 1))" using 2 ov by (intro inR) auto
      ultimately show False using lastpre by blast
    qed
  qed
  have 2: "length a = length r"
  proof (rule ccontr)
    assume "length a \<noteq> length r"
    then consider "length a < length r" | "length r < length a" by linarith
    then show False
    proof cases
      case 1
      then have "post \<noteq> []" using len 1 \<open>length pre = length p\<close> by auto
      moreover have "isBase58 (?t ! (length pre + length a))"
        using 1 \<open>length pre = length p\<close> by (intro inR) auto
      ultimately show False using hdpost by blast
    next
      case 2
      then have "q \<noteq> []" using len 2 \<open>length pre = length p\<close> by auto
      moreover have "isBase58 (?t ! (length p + length r))"
        using 2 \<open>length pre = length p\<close> by (intro inA) auto
      ultimately show False using hdq by blast
    qed
  qed
  from eq 1 have "pre = p" "a @ post = r @ q" by auto
  with 2 show ?thesis by auto
qed

lemma isBase58_not_space: "isBase58 c \<Longrightarrow> \<not> isSpace c"
  by (auto simp: isBase58_def isSpace_def)

lemma run45_not_matched:
  assumes run: "length run = 45" "list_all isBase58 run"
    and bd: "pre = [] \<or> \<not> isBase58 (last pre)" "post = [] \<or> \<not> isBase58 (hd post)"
    and m: "(j, a) \<in> set (scanAddresses 0 (pre @ run @ post))"
  shows "j + length a \<le> length pre \<or> length pre + 45 \<le> j"
proof (rule ccontr)
  assume "\<not> ?thesis"
  then have ov: "length pre < j + length a" "j < length pre + length run"
    using run(1) by auto
  from scanAddresses_sound[OF m] obtain p q where
    t: "pre @ run @ post = p @ a @ q" and j: "j = length p"
    and a: "length a \<le> 44" "list_all isBase58 a"
    and b: "q = [] \<or> \<not> isBase58 (hd q)" "p = [] \<or> \<not> isBase58 (last p)"
    by auto
  have "pre = p \<and> run = a"
    using bounded_runs_overlap[OF t run(2) a(2) bd b(2) b(1)] ov unfolding j by blast
  with run(1) a(1) show False by simp
qed

lemma run45_between_spaces:
  assumes "length run = 45" "list_all isBase58 run"
  shows "extractSolanaAddressesWithBoundary ('' '' @ run @ '' '') = []"
proof -
  have "scanAddresses 0 ('' '' @ run @ '' '') = []"
  proof (rule ccontr)
    assume "scanAddresses 0 ('' '' @ run @ '' '') \<noteq> []"
    then obtain j a where m: "(j, a) \<in> set (scanAddresses 0 ('' '' @ run @ '' ''))"
      by (metis list.set_intros(1) neq_Nil_conv surj_pair)
    have out: "j + length a \<le> length '' '' \<or> length '' '' + 45 \<le> j"
      using assms m by (intro run45_not_matched[where run = run and post = "'' ''"])
        (auto simp: isBase58_def)
    from scanAddresses_sound[OF m] obtain p q where
      t: "'' '' @ run @ '' '' = p @ a @ q" and j: "j = length p" and a: "32 \<le> length a"
      by auto
    have "length ('' '' @ run @ '' '') = length (p @ a @ q)"
      by (simp only: t)
    then have "j + length a \<le> 47"
      using assms(1) j by simp
    with out a show False by auto
  qed
  then show ?thesis by (simp add: extractSolanaAddressesWithBoundary_def uniq_def)
qed

lemma takeWhile_run:
  "list_all P run \<Longrightarrow> \<not> P c \<Longrightarrow> takeWhile P (run @ c # rest) = run"
  by (induction run) auto

lemma run44_between_spaces:
  assumes run: "length run = 44" "list_all isBase58 run" and nd: "\<not> list_all isDigit run"
  shows "extractSolanaAddressesWithBoundary ('' '' @ run @ '' '') = [run]"
proof -
  let ?t = "'' '' @ run @ '' ''"
  have sp: "\<not> isBase58 (CHR '' '')" by (simp add: isBase58_def)
  have tw: "takeWhile isBase58 (run @ '' '') = run"
    using takeWhile_run[OF run(2) sp, of "[]"] by simp
  have re: "addressRegex 0 ?t = Some (45, 1)"
    using sp tw run(1) by (simp add: addressRegex_def)
  have "addressRegex 45 '' '' = None"
    by (simp add: addressRegex_def isBase58_def)
  then have scan: "scanAddresses 0 ?t = [(1, run)]"
    using re run(1) by simp
  have valid: "isValidSolanaAddress run"
    using run nd by (auto simp: isValidSolanaAddress_def)
  have "substring ?t (1 - 200) 1 = '' ''" "substring ?t (1 - 4) 1 = '' ''"
    by (simp_all add: substring_def)
  moreover have "substring ?t (1 + 44) (min (length ?t) (1 + 44 + 200)) = '' ''"
    using run(1) by (simp add: substring_def)
  moreover have "\<not> list_ex (\<lambda>pattern. pattern ('' '' @ '' '')) urlPatterns"
    by code_simp
  ultimately have "\<not> isPartOfUrl ?t 1 44"
    by (simp add: isPartOfUrl_def Let_def)
  then show ?thesis
    using scan valid run(1) by (simp add: extractSolanaAddressesWithBoundary_def uniq_def)
qed


text \<open>
  C4, as amended. Let a text hold a run of exactly 45 base58 characters, with no base58
  character before or behind it. No match of the scan overlaps the run, and every address
  returned is the address of a match, so none is taken from the run; between two spaces
  the run gives no address at all. A run of 44 base58 characters between two spaces is
  returned, alone, when it is not purely numeric.
\<close>

theorem findAddresses_boundary:
  "(\<forall>pre run post.
      length run = 45 \<and> list_all isBase58 run
      \<and> (pre = [] \<or> \<not> isBase58 (last pre)) \<and> (post = [] \<or> \<not> isBase58 (hd post)) \<longrightarrow>
      (\<forall>j a. (j, a) \<in> set (scanAddresses 0 (pre @ run @ post)) \<longrightarrow>
          j + length a \<le> length pre \<or> length pre + 45 \<le> j)
      \<and> set (extractSolanaAddressesWithBoundary (pre @ run @ post))
          \<subseteq> snd ` set (scanAddresses 0 (pre @ run @ post)))
   \<and> (\<forall>run. length run = 45 \<and> list_all isBase58 run \<longrightarrow>
         extractSolanaAddressesWithBoundary ('' '' @ run @ '' '') = [])
   \<and> (\<forall>run. length run = 44 \<and> list_all isBase58 run \<and> \<not> list_all isDigit run \<longrightarrow>
         extractSolanaAddressesWithBoundary ('' '' @ run @ '' '') = [run])"
proof (intro conjI allI impI)
  fix pre run post :: string and j a
  assume h: "length run = 45 \<and> list_all isBase58 run
      \<and> (pre = [] \<or> \<not> isBase58 (last pre)) \<and> (post = [] \<or> \<not> isBase58 (hd post))"
    and m: "(j, a) \<in> set (scanAddresses 0 (pre @ run @ post))"
  from h have "length run = 45" "list_all isBase58 run"
    "pre = [] \<or> \<not> isBase58 (last pre)" "post = [] \<or> \<not> isBase58 (hd post)"
    by simp_all
  then show "j + length a \<le> length pre \<or> length pre + 45 \<le> j"
    using m by (rule run45_not_matched)
next
  fix pre run post :: string
  show "set (extractSolanaAddressesWithBoundary (pre @ run @ post))
          \<subseteq> snd ` set (scanAddresses 0 (pre @ run @ post))"
    by (auto simp: extractSolanaAddressesWithBoundary_def set_uniq)
next
  fix run :: string
  assume "length run = 45 \<and> list_all isBase58 run"
  then have "length run = 45" "list_all isBase58 run" by simp_all
  then show "extractSolanaAddressesWithBoundary ('' '' @ run @ '' '') = []"
    by (rule run45_between_spaces)
next
  fix run :: string
  assume "length run = 44 \<and> list_all isBase58 run \<and> \<not> list_all isDigit run"
  then have "length run = 44" "list_all isBase58 run" "\<not> list_all isDigit run" by simp_all
  then show "extractSolanaAddressesWithBoundary ('' '' @ run @ '' '') = [run]"
    by (rule run44_between_spaces)
qed

theorem findAddresses_boundary_witness:
  "length sampleRun45 = 45 \<and> list_all isBase58 sampleRun45
   \<and> (48, sampleAddress) \<in> set (scanAddresses 0 (''x '' @ sampleRun45 @ ('' '' @ sampleAddress)))
   \<and> (48 + length sampleAddress \<le> length ''x '' \<or> length ''x '' + 45 \<le> 48)
   \<and> extractSolanaAddressesWithBoundary (''x '' @ sampleRun45 @ ('' '' @ sampleAddress)) = [sampleAddress]
   \<and> extractSolanaAddressesWithBoundary ('' '' @ sampleRun45 @ '' '') = []
   \<and> length sampleAddress = 44 \<and> list_all isBase58 sampleAddress \<and> \<not> list_all isDigit sampleAddress
   \<and> extractSolanaAddressesWithBoundary ('' '' @ sampleAddress @ '' '') = [sampleAddress]"
proof -
  have r45: "length sampleRun45 = 45 \<and> list_all isBase58 sampleRun45"
    by code_simp
  have bd: "''x '' = [] \<or> \<not> isBase58 (last ''x '')"
    "'' '' @ sampleAddress = [] \<or> \<not> isBase58 (hd ('' '' @ sampleAddress))"
    by (simp_all add: isBase58_def)
  have m: "(48, sampleAddress) \<in> set (scanAddresses 0 (''x '' @ sampleRun45 @ ('' '' @ sampleAddress)))"
    by code_simp
  have x: "extractSolanaAddressesWithBoundary (''x '' @ sampleRun45 @ ('' '' @ sampleAddress)) = [sampleAddress]"
    by code_simp
  have r44: "length sampleAddress = 44 \<and> list_all isBase58 sampleAddress \<and> \<not> list_all isDigit sampleAddress"
    by code_simp
  note part1 = findAddresses_boundary[THEN conjunct1, rule_format,
      OF conjI[OF conjunct1[OF r45] conjI[OF conjunct2[OF r45] conjI[OF bd]]]]
  note out = part1[THEN conjunct1, rule_format, OF m]
  note none = findAddresses_boundary[THEN conjunct2, THEN conjunct1, rule_format, OF r45]
  note one = findAddresses_boundary[THEN conjunct2, THEN conjunct2, rule_format, OF r44]
  note l45 = r45[THEN conjunct1] and b45 = r45[THEN conjunct2]
    and l44 = r44[THEN conjunct1] and b44 = r44[THEN conjunct2, THEN conjunct1]
    and d44 = r44[THEN conjunct2, THEN conjunct2]
  show ?thesis
    by (intro conjI) (fact l45 b45 m out x none l44 b44 d44 one)+
qed

text \<open>
  The claim as it stands fails for a run of digits: 44 times the digit \<open>1\<close> is a run of
  base58 characters, and between two spaces it is not returned, since
  \<open>isValidSolanaAddress\<close> excludes a purely numeric candidate.
\<close>

theorem findAddresses_numeric_run_counterexample:
  "length digitRun44 = 44
   \<and> list_all isBase58 digitRun44
   \<and> extractSolanaAddressesWithBoundary ('' '' @ digitRun44 @ '' '')
       \<noteq> [digitRun44]"
  by code_simp

subsection \<open>Transaction links\<close>

lemma gsub_step:
  "m (c # cs) = None \<Longrightarrow> gsub m rep (c # cs) = c # gsub m rep cs"
  "m (c # cs) = Some n \<Longrightarrow> 0 < n \<Longrightarrow> gsub m rep (c # cs) = rep @ gsub m rep (drop n (c # cs))"
  by (auto simp: drop_Cons')

lemma drop_whole_prefix: "drop (length xs) (xs @ ys) = ys"
  by simp

lemma toUpperAscii_h: "toUpperAscii (CHR ''h'') = CHR ''H''"
  by (simp add: toUpperAscii_def)

lemma urlWith_no_scheme:
  "toUpperAscii c \<noteq> CHR ''H'' \<Longrightarrow> urlWith segs (c # cs) = None"
  using toUpperAscii_h by (auto simp: urlWith_def)

lemma prefixCI_append: "prefixCI p (p @ b)"
  by (induction p) auto

lemma includesCI_append: "prefixCI p t \<Longrightarrow> includesCI (a @ t) p"
proof (induction a)
  case Nil
  then show ?case by (cases t; cases p) auto
next
  case (Cons x a)
  then show ?case by simp
qed

lemma tx_url_match:
  assumes "list_all isBase58 S"
  shows "urlWith [''tx'', ''transaction'', ''confirmTransaction'']
           (''https://solscan.io/tx/'' @ S @ '' for details'') = Some (22 + length S)"
proof -
  let ?u = "''https://solscan.io/tx/'' @ S @ '' for details''"
  let ?segs = "[''tx'', ''transaction'', ''confirmTransaction'']"
  have "list_all (\<lambda>x. \<not> isSpace x) S"
    using assms isBase58_not_space unfolding list_all_iff by blast
  moreover have "list_all (\<lambda>x. \<not> isSpace x) ''solscan.io/tx/''"
    by (simp add: isSpace_def)
  ultimately have nsp: "list_all (\<lambda>x. \<not> isSpace x) (''solscan.io/tx/'' @ S)"
    by simp
  have "takeWhile (\<lambda>x. \<not> isSpace x) ((''solscan.io/tx/'' @ S) @ CHR '' '' # ''for details'')
          = ''solscan.io/tx/'' @ S"
    by (rule takeWhile_run[OF nsp]) (simp add: isSpace_def)
  then have path: "takeWhile (\<lambda>x. \<not> isSpace x) (drop 8 ?u) = ''solscan.io/tx/'' @ S"
    by simp
  have "includesCI (''solscan.io'' @ (''/tx/'' @ S)) ''/tx/''"
    by (rule includesCI_append[OF prefixCI_append])
  then have inc: "list_ex (\<lambda>seg. includesCI (''solscan.io/tx/'' @ S) (''/'' @ seg @ ''/'')) ?segs"
    by (simp del: includesCI.simps)
  have "prefixCI ''https://'' (''https://'' @ (''solscan.io/tx/'' @ S @ '' for details''))"
    by (rule prefixCI_append)
  then have sch: "prefixCI ''https://'' ?u"
    by (simp del: prefixCI.simps)
  have "urlWith ?segs ?u = Some (8 + length (''solscan.io/tx/'' @ S))"
    unfolding urlWith_def Let_def using sch path inc
    by (simp only: if_True option.case)
  then show ?thesis by simp
qed

lemma tx_url_removed:
  assumes "list_all isBase58 S"
  shows "removeUrlTransactionSignatures (''see https://solscan.io/tx/'' @ S @ '' for details'')
           = ''see   for details''"
proof -
  let ?m = "urlWith [''tx'', ''transaction'', ''confirmTransaction'']"
  let ?u = "''https://solscan.io/tx/'' @ S @ '' for details''"
  have tail: "gsub ?m '' '' '' for details'' = '' for details''"
    by code_simp
  have "drop (length (''https://solscan.io/tx/'' @ S))
          ((''https://solscan.io/tx/'' @ S) @ '' for details'') = '' for details''"
    by (rule drop_whole_prefix)
  moreover have "length (''https://solscan.io/tx/'' @ S) = 22 + length S"
    by simp
  ultimately have "drop (22 + length S) ?u = '' for details''"
    by (metis append.assoc)
  then have "gsub ?m '' '' ?u = '' '' @ '' for details''"
    using gsub_step(2)[of ?m "CHR ''h''" "''ttps://solscan.io/tx/'' @ S @ '' for details''" "22 + length S" "'' ''"]
      tx_url_match[OF assms] tail by simp
  then have "gsub ?m '' '' (''see '' @ ?u) = ''see '' @ '' '' @ '' for details''"
    by (simp add: gsub_step(1) urlWith_no_scheme toUpperAscii_def del: gsub.simps)
  moreover have "gsub (urlWith [''txs'']) '' '' ''see   for details'' = ''see   for details''"
    by code_simp
  ultimately show ?thesis
    by (simp add: removeUrlTransactionSignatures_def)
qed

lemma tx_signature_only_match:
  assumes S: "32 \<le> length S" "list_all isBase58 S"
    and m: "(j, a) \<in> set (scanAddresses 0 (''see https://solscan.io/tx/'' @ S @ '' for details''))"
  shows "j = 26 \<and> a = S"
proof -
  let ?pre = "''see https://solscan.io/tx/''" and ?post = "'' for details''"
  from scanAddresses_sound[OF m] obtain p q where
    t: "?pre @ S @ ?post = p @ a @ q" and j: "j = length p"
    and a: "32 \<le> length a" "list_all isBase58 a"
    and b: "q = [] \<or> \<not> isBase58 (hd q)" "p = [] \<or> \<not> isBase58 (last p)"
    by auto
  have "length (?pre @ S @ ?post) = length (p @ a @ q)" by (simp only: t)
  then have len: "38 + length S = length p + length a + length q" by simp
  have "?pre = p \<and> S = a"
  proof (rule bounded_runs_overlap[OF t S(2) a(2) _ _ b(2) b(1)])
    show "?pre = [] \<or> \<not> isBase58 (last ?pre)" by (simp add: isBase58_def)
    show "?post = [] \<or> \<not> isBase58 (hd ?post)" by (simp add: isBase58_def)
    show "length ?pre < length p + length a" using a(1) by simp
    show "length p < length ?pre + length S" using len a(1) by simp
  qed
  then show ?thesis using j by auto
qed

lemma matchDomains_skip:
  "\<not> isSpace p \<Longrightarrow> list_all (\<lambda>x. \<not> isSpace x) s \<Longrightarrow>
     matchDomains (Some p) (s @ rest) = matchDomains (Some (last (p # s))) rest"
proof (induction s arbitrary: p)
  case Nil
  then show ?case by simp
next
  case (Cons c s)
  have "domainRegex (Some p) (c # s @ rest) = None"
    using Cons.prems(1) by (simp add: domainRegex_def)
  then have "matchDomains (Some p) ((c # s) @ rest) = matchDomains (Some c) (s @ rest)"
    by simp
  also have "\<dots> = matchDomains (Some (last (c # s))) rest"
    using Cons.prems(2) by (intro Cons.IH) simp_all
  finally show ?case by simp
qed

lemma tx_text_no_domain:
  assumes "list_all isBase58 S"
  shows "extractSolanaDomainsFromText (''see https://solscan.io/tx/'' @ S @ '' for details'') = []"
proof -
  have tail: "matchDomains (Some x) '' for details'' = []" for x
    by (simp add: domainRegex_def isLabelChar_def isSpace_def)
  have "list_all (\<lambda>x. \<not> isSpace x) S"
    using assms isBase58_not_space unfolding list_all_iff by blast
  moreover have "list_all (\<lambda>x. \<not> isSpace x) ''ttps://solscan.io/tx/''"
    by (simp add: isSpace_def)
  ultimately have nsp: "list_all (\<lambda>x. \<not> isSpace x) (''ttps://solscan.io/tx/'' @ S)"
    by simp
  have h: "\<not> isSpace (CHR ''h'')"
    by (simp add: isSpace_def)
  have head: "matchDomains None (''see https:'' @ r) = matchDomains (Some (CHR ''h'')) (''ttps:'' @ r)"
    for r
    by (simp add: domainRegex_def isLabelChar_def isSpace_def)
  have "matchDomains None (''see https://solscan.io/tx/'' @ S @ '' for details'')
          = matchDomains (Some (CHR ''h'')) ((''ttps://solscan.io/tx/'' @ S) @ '' for details'')"
    using head[of "''//solscan.io/tx/'' @ S @ '' for details''"] by simp
  also have "\<dots> = matchDomains (Some (last (CHR ''h'' # ''ttps://solscan.io/tx/'' @ S)))
                      '' for details''"
    using h nsp by (rule matchDomains_skip)
  also have "\<dots> = []"
    by (rule tail)
  finally show ?thesis
    by (simp add: extractSolanaDomainsFromText_def uniq_def)
qed

text \<open>
  C5. For every run \<open>S\<close> of 32 to 44 base58 characters, \<open>extractSolanaAddressesFromText\<close>
  finds no address (and no domain) in the text \<open>see https://solscan.io/tx/S for details\<close>.
  It scans the text as it is: the only candidate is \<open>S\<close>, and the URL filter refuses
  it, since \<open>/tx/\<close> stands right before it. The pre-filter, which \<open>extractSolanaAddress\<close>
  applies before the same scan, replaces the whole link by a space, and the scan of what
  is left finds nothing either.
\<close>

theorem tx_url_signature_suppressed:
  assumes "32 \<le> length S" "length S \<le> 44" "list_all isBase58 S"
  shows "extractSolanaAddressesFromText (''see https://solscan.io/tx/'' @ S @ '' for details'')
           = \<lparr>solanaAddresses = [], solanaDomains = []\<rparr>
       \<and> removeUrlTransactionSignatures (''see https://solscan.io/tx/'' @ S @ '' for details'')
           = ''see   for details''
       \<and> extractSolanaAddressesWithBoundary (removeUrlTransactionSignatures
            (''see https://solscan.io/tx/'' @ S @ '' for details'')) = []"
proof (intro conjI)
  let ?t = "''see https://solscan.io/tx/'' @ S @ '' for details''"
  have url: "isPartOfUrl ?t 26 (length S)"
    by (simp add: isPartOfUrl_def substring_def)
  have "filter (\<lambda>(j, a). isValidSolanaAddress a \<and> \<not> isPartOfUrl ?t j (length a))
          (scanAddresses 0 ?t) = []"
    unfolding filter_empty_conv
    using tx_signature_only_match[OF assms(1,3)] url by fastforce
  then have "extractSolanaAddressesWithBoundary ?t = []"
    by (simp add: extractSolanaAddressesWithBoundary_def uniq_def)
  then show "extractSolanaAddressesFromText ?t = \<lparr>solanaAddresses = [], solanaDomains = []\<rparr>"
    using tx_text_no_domain[OF assms(3)] by (simp add: extractSolanaAddressesFromText_def)
  show "removeUrlTransactionSignatures ?t = ''see   for details''"
    by (rule tx_url_removed[OF assms(3)])
  have "extractSolanaAddressesWithBoundary ''see   for details'' = []"
    by code_simp
  then show "extractSolanaAddressesWithBoundary (removeUrlTransactionSignatures ?t) = []"
    using tx_url_removed[OF assms(3)] by simp
qed

theorem tx_url_signature_suppressed_witness:
  "32 \<le> length sampleSignature
   \<and> length sampleSignature \<le> 44
   \<and> list_all isBase58 sampleSignature
   \<and> isValidSolanaAddress sampleSignature
   \<and> extractSolanaAddressesFromText
        (''see https://solscan.io/tx/'' @ sampleSignature @ '' for details'')
       = \<lparr>solanaAddresses = [], solanaDomains = []\<rparr>
   \<and> extractSolanaAddressesWithBoundary (removeUrlTransactionSignatures
        (''see https://solscan.io/tx/'' @ sampleSignature @ '' for details'')) = []"
proof -
  have h: "32 \<le> length sampleSignature"
    "length sampleSignature \<le> 44"
    "list_all isBase58 sampleSignature"
    by code_simp+
  have v: "isValidSolanaAddress sampleSignature"
    by code_simp
  note t = tx_url_signature_suppressed[OF h]
  show ?thesis
    by (intro conjI) (fact h v t[THEN conjunct1] t[THEN conjunct2, THEN conjunct2])+
qed

section \<open>Properties of the page assembler\<close>

lemma scriptAddress_SomeD:
  "scriptAddress s = Some a \<Longrightarrow> 32 \<le> length a \<and> length a \<le> 44 \<and> list_all isAlnum a"
proof (induction s)
  case Nil
  then show ?case by simp
next
  case (Cons c cs)
  show ?case
  proof (cases "scriptAddress cs = Some a")
    case True
    with Cons.IH show ?thesis by simp
  next
    case False
    with Cons.prems have "a = takeWhile isAlnum (drop (length (''const address = '' @ [CHR 0x22])) (c # cs))"
      and "32 \<le> length a \<and> length a \<le> 44"
      by (auto simp: Let_def split: if_splits)
    then show ?thesis
      by (auto simp: list_all_iff dest: set_takeWhileD)
  qed
qed

lemma extractSolanaAddresses_shape:
  assumes "a \<in> set (extractSolanaAddressesWithBoundary t)"
  shows "32 \<le> length a \<and> length a \<le> 44 \<and> list_all isBase58 a"
proof -
  from assms obtain j where "(j, a) \<in> set (scanAddresses 0 t)"
    by (auto simp: extractSolanaAddressesWithBoundary_def set_uniq split: if_splits)
  from scanAddresses_sound[OF this] show ?thesis by blast
qed

subsection \<open>The address in the script\<close>

lemma quote_not_alnum: "\<not> isAlnum (CHR 0x22)"
  by (simp add: isAlnum_def)

lemma scriptMatchAt_Suc: "scriptMatchAt (c # cs) (Suc i) a = scriptMatchAt cs i a"
  by (simp only: scriptMatchAt_def drop_Suc_Cons)

lemma scriptMatchAt_Nil: "\<not> scriptMatchAt [] i a"
  by (simp add: scriptMatchAt_def)

lemma alnum_run:
  assumes "list_all isAlnum a" and "prefix (m @ a @ [CHR 0x22]) s"
  shows "prefix m s"
    and "takeWhile isAlnum (drop (length m) s) = a"
    and "prefix [CHR 0x22] (dropWhile isAlnum (drop (length m) s))"
proof -
  from assms(2) obtain t where s: "s = m @ a @ [CHR 0x22] @ t"
    unfolding prefix_def by auto
  show "prefix m s" unfolding s by simp
  have d: "drop (length m) s = a @ CHR 0x22 # t"
    unfolding s by simp
  from assms(1) have al: "\<forall>x\<in>set a. isAlnum x" by (simp add: list_all_iff)
  then show "takeWhile isAlnum (drop (length m) s) = a"
    unfolding d using quote_not_alnum by (simp add: takeWhile_append2)
  from al show "prefix [CHR 0x22] (dropWhile isAlnum (drop (length m) s))"
    unfolding d using quote_not_alnum by (simp add: dropWhile_append2)
qed

lemma run_alnum:
  assumes "prefix m s" and "prefix [CHR 0x22] (dropWhile isAlnum (drop (length m) s))"
  shows "prefix (m @ takeWhile isAlnum (drop (length m) s) @ [CHR 0x22]) s"
    and "list_all isAlnum (takeWhile isAlnum (drop (length m) s))"
proof -
  from assms(1) obtain r where s: "s = m @ r" unfolding prefix_def by auto
  then have r: "drop (length m) s = r" by simp
  from assms(2) obtain t where t: "dropWhile isAlnum r = CHR 0x22 # t"
    unfolding r prefix_def by auto
  have "r = takeWhile isAlnum r @ dropWhile isAlnum r" by simp
  with t have "r = takeWhile isAlnum r @ [CHR 0x22] @ t" by simp
  then have "s = (m @ takeWhile isAlnum r @ [CHR 0x22]) @ t" using s by simp
  then show "prefix (m @ takeWhile isAlnum (drop (length m) s) @ [CHR 0x22]) s"
    unfolding r by (metis prefixI)
  show "list_all isAlnum (takeWhile isAlnum (drop (length m) s))"
    by (auto simp: list_all_iff dest: set_takeWhileD)
qed

lemma scriptAddress_head:
  assumes "scriptMatchAt (c # cs) 0 a"
  shows "scriptAddress (c # cs) = Some a"
proof -
  let ?m = "''const address = '' @ [CHR 0x22]"
  from assms have al: "list_all isAlnum a" and p: "prefix (?m @ a @ [CHR 0x22]) (c # cs)"
    and len: "32 \<le> length a" "length a \<le> 44"
    by (simp_all only: scriptMatchAt_def drop_0)
  note r = alnum_run[OF al p]
  show ?thesis
    by (simp only: scriptAddress.simps Let_def r len if_True simp_thms)
qed

lemma scriptAddress_tail:
  assumes "\<forall>a. \<not> scriptMatchAt (c # cs) 0 a"
  shows "scriptAddress (c # cs) = scriptAddress cs"
proof (cases "prefix (''const address = '' @ [CHR 0x22]) (c # cs)")
  case False
  then show ?thesis by (simp only: scriptAddress.simps if_False)
next
  case True
  let ?m = "''const address = '' @ [CHR 0x22]"
  let ?rest = "drop (length ?m) (c # cs)"
  let ?run = "takeWhile isAlnum ?rest"
  have f: "\<not> (32 \<le> length ?run \<and> length ?run \<le> 44
            \<and> prefix [CHR 0x22] (dropWhile isAlnum ?rest))"
  proof
    assume h: "32 \<le> length ?run \<and> length ?run \<le> 44
            \<and> prefix [CHR 0x22] (dropWhile isAlnum ?rest)"
    then have q: "prefix [CHR 0x22] (dropWhile isAlnum ?rest)" by (elim conjE)
    from run_alnum[OF True q] h have "scriptMatchAt (c # cs) 0 ?run"
      by (simp only: scriptMatchAt_def drop_0 simp_thms)
    with assms show False by blast
  qed
  show ?thesis
    by (simp only: scriptAddress.simps Let_def True f if_True if_False)
qed

lemma scriptAddress_first_match:
  "scriptAddress s = Some a \<longleftrightarrow>
     (\<exists>i. scriptMatchAt s i a \<and> (\<forall>j<i. \<forall>b. \<not> scriptMatchAt s j b))"
proof (induction s)
  case Nil
  show ?case by (simp add: scriptMatchAt_Nil)
next
  case (Cons c cs)
  show ?case
  proof (cases "\<exists>b. scriptMatchAt (c # cs) 0 b")
    case True
    then obtain b where b: "scriptMatchAt (c # cs) 0 b" ..
    have sa: "scriptAddress (c # cs) = Some b" by (rule scriptAddress_head[OF b])
    show ?thesis
    proof
      assume "scriptAddress (c # cs) = Some a"
      with sa have "a = b" by simp
      with b show "\<exists>i. scriptMatchAt (c # cs) i a \<and> (\<forall>j<i. \<forall>b. \<not> scriptMatchAt (c # cs) j b)"
        by (intro exI[of _ 0]) simp
    next
      assume "\<exists>i. scriptMatchAt (c # cs) i a \<and> (\<forall>j<i. \<forall>b. \<not> scriptMatchAt (c # cs) j b)"
      then obtain i where i: "scriptMatchAt (c # cs) i a"
        and l: "\<forall>j<i. \<forall>b. \<not> scriptMatchAt (c # cs) j b" by blast
      from l b have "i = 0" by (cases i) auto
      with i have "scriptMatchAt (c # cs) 0 a" by (simp only:)
      then show "scriptAddress (c # cs) = Some a" by (rule scriptAddress_head)
    qed
  next
    case False
    then have n: "\<forall>b. \<not> scriptMatchAt (c # cs) 0 b" by blast
    have sa: "scriptAddress (c # cs) = scriptAddress cs" by (rule scriptAddress_tail[OF n])
    have "(\<exists>i. scriptMatchAt (c # cs) i a \<and> (\<forall>j<i. \<forall>b. \<not> scriptMatchAt (c # cs) j b))
      \<longleftrightarrow> (\<exists>i. scriptMatchAt cs i a \<and> (\<forall>j<i. \<forall>b. \<not> scriptMatchAt cs j b))"
    proof
      assume "\<exists>i. scriptMatchAt (c # cs) i a \<and> (\<forall>j<i. \<forall>b. \<not> scriptMatchAt (c # cs) j b)"
      then obtain i where i: "scriptMatchAt (c # cs) i a"
        and l: "\<forall>j<i. \<forall>b. \<not> scriptMatchAt (c # cs) j b" by blast
      from i n obtain i' where i': "i = Suc i'" by (cases i) auto
      from i i' have "scriptMatchAt cs i' a" by (simp add: scriptMatchAt_Suc)
      moreover have "\<forall>j<i'. \<forall>b. \<not> scriptMatchAt cs j b"
      proof (intro allI impI)
        fix j b assume "j < i'"
        then have "Suc j < i" using i' by simp
        with l have "\<not> scriptMatchAt (c # cs) (Suc j) b" by blast
        then show "\<not> scriptMatchAt cs j b" by (simp add: scriptMatchAt_Suc)
      qed
      ultimately show "\<exists>i. scriptMatchAt cs i a \<and> (\<forall>j<i. \<forall>b. \<not> scriptMatchAt cs j b)"
        by blast
    next
      assume "\<exists>i. scriptMatchAt cs i a \<and> (\<forall>j<i. \<forall>b. \<not> scriptMatchAt cs j b)"
      then obtain i where i: "scriptMatchAt cs i a"
        and l: "\<forall>j<i. \<forall>b. \<not> scriptMatchAt cs j b" by blast
      have "scriptMatchAt (c # cs) (Suc i) a" using i by (simp add: scriptMatchAt_Suc)
      moreover have "\<forall>j<Suc i. \<forall>b. \<not> scriptMatchAt (c # cs) j b"
      proof (intro allI impI)
        fix j b assume j: "j < Suc i"
        show "\<not> scriptMatchAt (c # cs) j b"
        proof (cases j)
          case 0
          with n show ?thesis by simp
        next
          case (Suc j')
          with j l show ?thesis by (simp add: scriptMatchAt_Suc)
        qed
      qed
      ultimately show "\<exists>i. scriptMatchAt (c # cs) i a \<and> (\<forall>j<i. \<forall>b. \<not> scriptMatchAt (c # cs) j b)"
        by blast
    qed
    with Cons.IH sa show ?thesis by simp
  qed
qed

lemma scriptAddress_no_match:
  "scriptAddress s = None \<longleftrightarrow> (\<forall>i b. \<not> scriptMatchAt s i b)"
proof (induction s)
  case Nil
  show ?case by (simp add: scriptMatchAt_Nil)
next
  case (Cons c cs)
  show ?case
  proof (cases "\<exists>b. scriptMatchAt (c # cs) 0 b")
    case True
    then obtain b where b: "scriptMatchAt (c # cs) 0 b" ..
    from scriptAddress_head[OF b] b show ?thesis by auto
  next
    case False
    then have n: "\<forall>b. \<not> scriptMatchAt (c # cs) 0 b" by blast
    have "(\<forall>i b. \<not> scriptMatchAt (c # cs) i b) \<longleftrightarrow> (\<forall>i b. \<not> scriptMatchAt cs i b)"
    proof
      assume a: "\<forall>i b. \<not> scriptMatchAt (c # cs) i b"
      show "\<forall>i b. \<not> scriptMatchAt cs i b"
      proof (intro allI)
        fix i b
        from a have "\<not> scriptMatchAt (c # cs) (Suc i) b" by blast
        then show "\<not> scriptMatchAt cs i b" by (simp add: scriptMatchAt_Suc)
      qed
    next
      assume a: "\<forall>i b. \<not> scriptMatchAt cs i b"
      show "\<forall>i b. \<not> scriptMatchAt (c # cs) i b"
      proof (intro allI)
        fix i b
        show "\<not> scriptMatchAt (c # cs) i b"
          using n a by (cases i) (simp_all add: scriptMatchAt_Suc)
      qed
    qed
    with Cons.IH scriptAddress_tail[OF n] show ?thesis by simp
  qed
qed

subsection \<open>The first of the recognised\<close>

lemma uniq_acc_head:
  "\<exists>zs. foldl (\<lambda>seen x. if x \<in> set seen then seen else seen @ [x]) (y # ys) xs = y # zs"
proof (induction xs arbitrary: ys)
  case Nil
  show ?case by simp
next
  case (Cons x xs)
  show ?case
  proof (cases "x \<in> set (y # ys)")
    case True
    with Cons[of ys] show ?thesis by simp
  next
    case False
    with Cons[of "ys @ [x]"] show ?thesis by simp
  qed
qed

lemma uniq_first:
  "(case uniq xs of [] \<Rightarrow> None | a # _ \<Rightarrow> Some a) = (case xs of [] \<Rightarrow> None | a # _ \<Rightarrow> Some a)"
proof (cases xs)
  case Nil
  then show ?thesis by (simp add: uniq_def)
next
  case (Cons x xs')
  from uniq_acc_head[of x "[]" xs'] obtain zs where "uniq (x # xs') = x # zs"
    by (auto simp: uniq_def)
  with Cons show ?thesis by simp
qed

lemma extractSolanaAddresses_first:
  "(case extractSolanaAddressesWithBoundary t of [] \<Rightarrow> None | a # _ \<Rightarrow> Some a)
     = (case filter (\<lambda>(j, a). isValidSolanaAddress a \<and> \<not> isPartOfUrl t j (length a))
               (scanAddresses 0 t) of
          [] \<Rightarrow> None
        | (j, a) # _ \<Rightarrow> Some a)"
proof (cases "t = []")
  case True
  then show ?thesis by (simp add: extractSolanaAddressesWithBoundary_def)
next
  case False
  let ?ms = "filter (\<lambda>(j, a). isValidSolanaAddress a \<and> \<not> isPartOfUrl t j (length a))
               (scanAddresses 0 t)"
  from False have "(case extractSolanaAddressesWithBoundary t of [] \<Rightarrow> None | a # _ \<Rightarrow> Some a)
      = (case map snd ?ms of [] \<Rightarrow> None | a # _ \<Rightarrow> Some a)"
    by (simp only: extractSolanaAddressesWithBoundary_def if_False uniq_first)
  also have "\<dots> = (case ?ms of [] \<Rightarrow> None | (j, a) # _ \<Rightarrow> Some a)"
    by (cases ?ms) (simp_all add: case_prod_beta)
  finally show ?thesis .
qed

text \<open>
  C10. The result of a profile page has at most one address and at most one domain. The
  address is the one embedded in the script if there is one: the group of the first
  match of \<open>const address = "..."\<close> in the script text, whatever the page text holds.
  If the script text has no match it is the first address recognised in the page text
  (after the transaction links are taken out), which is the address of the first match of
  the scan, from left to right, that passes the two filters; else none. The domain is
  the first domain recognised in the page text, else none. Neither is ever an empty
  string: an address has 32 to 44 letters and digits, a domain is a label of at least
  one character followed by \<open>.sol\<close>.
\<close>

theorem profile_one_address_one_domain:
  assumes "parseUserInfoPage doc url = Inr info"
  shows "(\<forall>i a. scriptMatchAt (scriptText doc) i a
                \<and> (\<forall>j<i. \<forall>b. \<not> scriptMatchAt (scriptText doc) j b)
              \<longrightarrow> userSolanaAddress info = Some a)
       \<and> ((\<forall>i b. \<not> scriptMatchAt (scriptText doc) i b) \<longrightarrow>
            userSolanaAddress info =
              (case extractSolanaAddressesWithBoundary
                      (removeUrlTransactionSignatures (pageText doc)) of
                 [] \<Rightarrow> None
               | a # _ \<Rightarrow> Some a)
          \<and> userSolanaAddress info =
              (case filter (\<lambda>(j, a). isValidSolanaAddress a
                              \<and> \<not> isPartOfUrl (removeUrlTransactionSignatures (pageText doc))
                                    j (length a))
                      (scanAddresses 0 (removeUrlTransactionSignatures (pageText doc))) of
                 [] \<Rightarrow> None
               | (j, a) # _ \<Rightarrow> Some a))
       \<and> userSolanaDomain info =
           (case extractSolanaDomainsFromText (pageText doc) of [] \<Rightarrow> None | d # _ \<Rightarrow> Some d)
       \<and> (case userSolanaAddress info of
             None \<Rightarrow> True
           | Some a \<Rightarrow> 32 \<le> length a \<and> length a \<le> 44 \<and> list_all isAlnum a)
       \<and> (case userSolanaDomain info of
             None \<Rightarrow> True
           | Some d \<Rightarrow> \<exists>label. d = label @ ''.sol'' \<and> label \<noteq> [] \<and> list_all isLabelChar label)
       \<and> userSolanaAddress info \<noteq> Some [] \<and> userSolanaDomain info \<noteq> Some []"
proof -
  let ?t = "removeUrlTransactionSignatures (pageText doc)"
  let ?ex = "extractSolanaAddressesWithBoundary ?t"
  let ?ds = "extractSolanaDomainsFromText (pageText doc)"
  from assms have a: "userSolanaAddress info =
      (case scriptAddress (scriptText doc) of Some a \<Rightarrow> Some a
       | None \<Rightarrow> (case ?ex of [] \<Rightarrow> None | a # _ \<Rightarrow> Some a))"
    and d: "userSolanaDomain info = (case ?ds of [] \<Rightarrow> None | d # _ \<Rightarrow> Some d)"
    by (auto simp: parseUserInfoPage_def extractSolanaAddress_def Let_def split: sum.splits)
  have script: "userSolanaAddress info = Some x"
    if "scriptMatchAt (scriptText doc) i x
        \<and> (\<forall>j<i. \<forall>b. \<not> scriptMatchAt (scriptText doc) j b)" for i x
  proof -
    from that have "scriptAddress (scriptText doc) = Some x"
      unfolding scriptAddress_first_match by (rule exI)
    with a show ?thesis by simp
  qed
  have plain: "userSolanaAddress info = (case ?ex of [] \<Rightarrow> None | a # _ \<Rightarrow> Some a)"
    if "\<forall>i b. \<not> scriptMatchAt (scriptText doc) i b"
  proof -
    have "scriptAddress (scriptText doc) = None"
      unfolding scriptAddress_no_match by (rule that)
    with a show ?thesis by simp
  qed
  have alnum: "isAlnum c" if "isBase58 c" for c
    using that by (auto simp: isBase58_def isAlnum_def)
  have shape: "32 \<le> length x \<and> length x \<le> 44 \<and> list_all isAlnum x"
    if "userSolanaAddress info = Some x" for x
  proof (cases "scriptAddress (scriptText doc)")
    case (Some y)
    with a that show ?thesis using scriptAddress_SomeD by auto
  next
    case None
    with a that have "x \<in> set ?ex" by (auto split: list.splits)
    from extractSolanaAddresses_shape[OF this] show ?thesis
      using alnum by (auto simp: list_all_iff)
  qed
  have label: "\<exists>label. x = label @ ''.sol'' \<and> label \<noteq> [] \<and> list_all isLabelChar label"
    if "userSolanaDomain info = Some x" for x
  proof -
    from d that have "x \<in> set ?ds" by (auto split: list.splits)
    from extractSolanaDomains_sound[OF this] show ?thesis by blast
  qed
  have c1: "\<forall>i a. scriptMatchAt (scriptText doc) i a
                \<and> (\<forall>j<i. \<forall>b. \<not> scriptMatchAt (scriptText doc) j b)
              \<longrightarrow> userSolanaAddress info = Some a"
    using script by blast
  have c2: "(\<forall>i b. \<not> scriptMatchAt (scriptText doc) i b) \<longrightarrow>
            userSolanaAddress info = (case ?ex of [] \<Rightarrow> None | a # _ \<Rightarrow> Some a)
          \<and> userSolanaAddress info =
              (case filter (\<lambda>(j, a). isValidSolanaAddress a \<and> \<not> isPartOfUrl ?t j (length a))
                      (scanAddresses 0 ?t) of
                 [] \<Rightarrow> None
               | (j, a) # _ \<Rightarrow> Some a)"
    using plain extractSolanaAddresses_first[of ?t] by simp
  have c4: "case userSolanaAddress info of
             None \<Rightarrow> True
           | Some a \<Rightarrow> 32 \<le> length a \<and> length a \<le> 44 \<and> list_all isAlnum a"
    using shape by (simp split: option.splits)
  have c5: "case userSolanaDomain info of
             None \<Rightarrow> True
           | Some d \<Rightarrow> \<exists>label. d = label @ ''.sol'' \<and> label \<noteq> [] \<and> list_all isLabelChar label"
    using label by (simp split: option.splits)
  have c6: "userSolanaAddress info \<noteq> Some []"
    using shape[of "[]"] by auto
  have c7: "userSolanaDomain info \<noteq> Some []"
    using label[of "[]"] by auto
  from c1 c2 d c4 c5 c6 c7 show ?thesis
    by (intro conjI)
qed

theorem profile_one_address_one_domain_witness:
  "(\<exists>info. parseUserInfoPage
              (profileDoc sampleScript (''tip '' @ sampleSignature @ '' thanks''))
              ''https://v2ex.com/member/s'' = Inr info
       \<and> userSolanaAddress info = Some sampleAddress \<and> userSolanaDomain info = None)
   \<and> scriptMatchAt sampleScript 65 sampleAddress
   \<and> extractSolanaAddressesWithBoundary
        (removeUrlTransactionSignatures (''tip '' @ sampleSignature @ '' thanks''))
       = [sampleSignature]
   \<and> (\<exists>info. parseUserInfoPage
              (profileDoc [] (''tip '' @ sampleSignature @ '' or '' @ sampleAddress @ '' thanks''))
              ''https://v2ex.com/member/a'' = Inr info
       \<and> userSolanaAddress info = Some sampleSignature \<and> userSolanaDomain info = None)
   \<and> (\<exists>info. parseUserInfoPage (profileDoc [] ''find me at alice.sol or bob.sol'')
               ''https://v2ex.com/member/b'' = Inr info
       \<and> userSolanaAddress info = None \<and> userSolanaDomain info = Some ''alice.sol''
       \<and> userSolanaDomain info \<noteq> Some [])"
proof -
  let ?s = "profileDoc sampleScript (''tip '' @ sampleSignature @ '' thanks'')"
  let ?a = "profileDoc [] (''tip '' @ sampleSignature @ '' or '' @ sampleAddress @ '' thanks'')"
  let ?b = "profileDoc [] ''find me at alice.sol or bob.sol''"
  obtain sc where sc: "parseUserInfoPage ?s ''https://v2ex.com/member/s'' = Inr sc"
    by (simp add: parseUserInfoPage_def profileDoc_def Let_def)
  obtain ia where ia: "parseUserInfoPage ?a ''https://v2ex.com/member/a'' = Inr ia"
    by (simp add: parseUserInfoPage_def profileDoc_def Let_def)
  obtain ib where ib: "parseUserInfoPage ?b ''https://v2ex.com/member/b'' = Inr ib"
    by (simp add: parseUserInfoPage_def profileDoc_def Let_def)
  have st: "scriptText ?s = sampleScript" "scriptText ?a = []" "scriptText ?b = []"
    and pt: "pageText ?s = ''tip '' @ sampleSignature @ '' thanks''"
    by (simp_all add: profileDoc_def)
  have m: "scriptMatchAt sampleScript 65 sampleAddress"
    by code_simp
  have "scriptAddress sampleScript = Some sampleAddress"
    by code_simp
  then obtain i where first: "scriptMatchAt sampleScript i sampleAddress
      \<and> (\<forall>j<i. \<forall>b. \<not> scriptMatchAt sampleScript j b)"
    unfolding scriptAddress_first_match by (elim exE)
  have none: "\<forall>i b. \<not> scriptMatchAt [] i b"
    by (simp add: scriptMatchAt_Nil)
  have xs: "extractSolanaAddressesWithBoundary
              (removeUrlTransactionSignatures (''tip '' @ sampleSignature @ '' thanks''))
              = [sampleSignature]"
    by code_simp
  have xa: "extractSolanaAddressesWithBoundary (removeUrlTransactionSignatures (pageText ?a))
              = [sampleSignature, sampleAddress]"
    by code_simp
  have xb: "extractSolanaAddressesWithBoundary (removeUrlTransactionSignatures (pageText ?b)) = []"
    by code_simp
  have ds: "extractSolanaDomainsFromText (pageText ?s) = []"
    by code_simp
  have da: "extractSolanaDomainsFromText (pageText ?a) = []"
    by code_simp
  have db: "extractSolanaDomainsFromText (pageText ?b) = [''alice.sol'', ''bob.sol'']"
    by code_simp
  note ts = profile_one_address_one_domain[OF sc]
  note ta = profile_one_address_one_domain[OF ia]
  note tb = profile_one_address_one_domain[OF ib]
  have "scriptMatchAt (scriptText ?s) i sampleAddress
      \<and> (\<forall>j<i. \<forall>b. \<not> scriptMatchAt (scriptText ?s) j b)"
    unfolding st by (rule first)
  from ts[THEN conjunct1, rule_format, OF this]
  have "userSolanaAddress sc = Some sampleAddress" .
  moreover from ts[THEN conjunct2, THEN conjunct2, THEN conjunct1] ds
  have "userSolanaDomain sc = None"
    by simp
  moreover have "userSolanaAddress ia = Some sampleSignature"
  proof -
    have "\<forall>i b. \<not> scriptMatchAt (scriptText ?a) i b"
      unfolding st by (rule none)
    from ta[THEN conjunct2, THEN conjunct1, THEN mp, OF this, THEN conjunct1]
    show ?thesis unfolding xa by simp
  qed
  moreover from ta[THEN conjunct2, THEN conjunct2, THEN conjunct1] da
  have "userSolanaDomain ia = None"
    by simp
  moreover have "userSolanaAddress ib = None"
  proof -
    have "\<forall>i b. \<not> scriptMatchAt (scriptText ?b) i b"
      unfolding st by (rule none)
    from tb[THEN conjunct2, THEN conjunct1, THEN mp, OF this, THEN conjunct1]
    show ?thesis unfolding xb by simp
  qed
  moreover from tb[THEN conjunct2, THEN conjunct2, THEN conjunct1] db
  have "userSolanaDomain ib = Some ''alice.sol'' \<and> userSolanaDomain ib \<noteq> Some []"
    by simp
  ultimately show ?thesis using sc ia ib m xs by blast
qed

text \<open>
  C8, as amended. For a URL that contains neither \<open>/member/\<close> nor \<open>/t/\<close>,
  \<open>parseV2exPage\<close> fails and never returns a result: with the error of the unsupported
  page kind when the request for the page succeeds, with the transport error when the
  request itself fails, each inside the error of \<open>parseV2exPage\<close>. When the request
  succeeds, a URL that contains \<open>/member/\<close> goes to the profile assembly, and a URL that
  contains \<open>/t/\<close> and not \<open>/member/\<close> goes to the post assembly.
\<close>

theorem parseV2exPage_dispatch:
  "(\<not> includesStr url ''/member/'' \<and> \<not> includesStr url ''/t/'' \<longrightarrow>
      (\<exists>e. parseV2exPage env k url = Inl e)
      \<and> (\<forall>doc. env k url = Inr doc \<longrightarrow>
            parseV2exPage env k url = Inl (ParseV2exPageFailed UnsupportedPageKind))
      \<and> (\<forall>message. env k url = Inl message \<longrightarrow>
            parseV2exPage env k url = Inl (ParseV2exPageFailed (TransportError message))))
   \<and> (\<forall>doc. includesStr url ''/member/'' \<and> env k url = Inr doc \<longrightarrow>
         parseV2exPage env k url =
           (case parseUserInfoPage doc url of
              Inl e \<Rightarrow> Inl (ParseV2exPageFailed e)
            | Inr info \<Rightarrow> Inr (UserInfo info)))
   \<and> (\<forall>doc. \<not> includesStr url ''/member/'' \<and> includesStr url ''/t/'' \<and> env k url = Inr doc \<longrightarrow>
         parseV2exPage env k url = Inr (PostInfo (parsePostPage doc url)))"
  by (auto simp: parseV2exPage_def split: sum.splits)

theorem parseV2exPage_dispatch_witness:
  "parseV2exPage (\<lambda>k url. Inr (profileDoc [] ''hello'')) 0 ''https://v2ex.com/about''
     = Inl (ParseV2exPageFailed UnsupportedPageKind)
   \<and> parseV2exPage (\<lambda>k url. Inl ''timeout'') 0 ''https://v2ex.com/about''
     = Inl (ParseV2exPageFailed (TransportError ''timeout''))
   \<and> parseV2exPage (\<lambda>k url. Inr (profileDoc [] ''hello'')) 0 ''https://v2ex.com/member/Livid''
     = (case parseUserInfoPage (profileDoc [] ''hello'') ''https://v2ex.com/member/Livid'' of
          Inl e \<Rightarrow> Inl (ParseV2exPageFailed e)
        | Inr info \<Rightarrow> Inr (UserInfo info))
   \<and> parseV2exPage (\<lambda>k url. Inr (threadDoc [''1''])) 0 ''https://v2ex.com/t/1''
     = Inr (PostInfo (parsePostPage (threadDoc [''1'']) ''https://v2ex.com/t/1''))"
proof -
  have n: "\<not> includesStr ''https://v2ex.com/about'' ''/member/''"
    "\<not> includesStr ''https://v2ex.com/about'' ''/t/''"
    by code_simp+
  have m: "includesStr ''https://v2ex.com/member/Livid'' ''/member/''"
    by code_simp
  have t: "\<not> includesStr ''https://v2ex.com/t/1'' ''/member/''"
    "includesStr ''https://v2ex.com/t/1'' ''/t/''"
    by code_simp+
  show ?thesis
    using n parseV2exPage_dispatch[of "''https://v2ex.com/about''"
        "\<lambda>k url. Inr (profileDoc [] ''hello'')" 0]
      parseV2exPage_dispatch[of "''https://v2ex.com/about''" "\<lambda>k url. Inl ''timeout''" 0]
      m parseV2exPage_dispatch[of "''https://v2ex.com/member/Livid''"
        "\<lambda>k url. Inr (profileDoc [] ''hello'')" 0]
      t parseV2exPage_dispatch[of "''https://v2ex.com/t/1''"
        "\<lambda>k url. Inr (threadDoc [''1''])" 0]
    by blast
qed

text \<open>
  The claim as it stands fails in two places. When the request fails, the error for a URL
  of neither kind is the transport error, not the error of the unsupported page kind.
  And a URL that contains both segments is taken for a profile: the page of a thread,
  asked for under a URL that names a member in its query, goes to the profile assembly
  and not to the post assembly.
\<close>

theorem parseV2exPage_dispatch_counterexample:
  "\<not> includesStr ''https://v2ex.com/about'' ''/member/''
   \<and> \<not> includesStr ''https://v2ex.com/about'' ''/t/''
   \<and> parseV2exPage (\<lambda>k url. Inl ''timeout'') 0 ''https://v2ex.com/about''
       \<noteq> Inl (ParseV2exPageFailed UnsupportedPageKind)
   \<and> includesStr ''https://v2ex.com/t/1?r=/member/Livid'' ''/t/''
   \<and> parseV2exPage (\<lambda>k url. Inr (threadDoc [''1''])) 0 ''https://v2ex.com/t/1?r=/member/Livid''
       \<noteq> Inr (PostInfo (parsePostPage (threadDoc [''1'']) ''https://v2ex.com/t/1?r=/member/Livid''))
   \<and> (\<exists>info. parseV2exPage (\<lambda>k url. Inr (threadDoc [''1''])) 0
                ''https://v2ex.com/t/1?r=/member/Livid'' = Inr (UserInfo info))"
proof -
  have 1: "\<not> includesStr ''https://v2ex.com/about'' ''/member/''"
    "\<not> includesStr ''https://v2ex.com/about'' ''/t/''"
    "includesStr ''https://v2ex.com/t/1?r=/member/Livid'' ''/t/''"
    "includesStr ''https://v2ex.com/t/1?r=/member/Livid'' ''/member/''"
    by code_simp+
  have 2: "parseV2exPage (\<lambda>k url. Inl ''timeout'') 0 ''https://v2ex.com/about''
             = Inl (ParseV2exPageFailed (TransportError ''timeout''))"
    by (simp add: parseV2exPage_def)
  obtain info where "parseUserInfoPage (threadDoc [''1'']) ''https://v2ex.com/t/1?r=/member/Livid''
                       = Inr info"
    by (simp add: parseUserInfoPage_def threadDoc_def Let_def)
  then have 3: "parseV2exPage (\<lambda>k url. Inr (threadDoc [''1''])) 0
                  ''https://v2ex.com/t/1?r=/member/Livid'' = Inr (UserInfo info)"
    using 1(4) by (simp add: parseV2exPage_def del: includesStr.simps)
  show ?thesis using 1 2 3 by simp
qed

section \<open>Properties of the pagination aggregator\<close>

lemma fetchPages_fetched:
  assumes "page \<le> lastPage" "env k (baseUrl @ ''?p='' @ showNat page) = Inr doc"
    and "page' = page + 1" "k' = k + 1"
  shows "fetchPages env baseUrl lastPage page k acc
           = fetchPages env baseUrl lastPage page' k' (acc @ pageReplies doc)"
  using assms by (subst fetchPages.simps) simp

lemma fetchPages_done:
  "lastPage < page \<Longrightarrow> fetchPages env baseUrl lastPage page k acc = (acc, k)"
  by (subst fetchPages.simps) simp

text \<open>
  C1, as amended. When the first page announces three pages and the pages 1, 2 and 3 give
  5, 5 and 3 replies, the merged result has \<open>replyCount = 13\<close> and \<open>totalFloors = 14\<close>, and
  its replies are those of page 1, then those of page 2, then those of page 3, each
  page's replies in their order and all of them kept: the reply ids of the merged list
  are the ids of the three pages one after the other, so an id that stands on two pages
  stands twice in the result.
\<close>

theorem multi_page_merge:
  assumes first: "env k (base @ ''/t/'' @ postId) = Inr d1"
    and pag: "hasMultiplePages (docPagination d1)" "totalPages (docPagination d1) = 3"
    and p2: "env (k + 1) (base @ ''/t/'' @ postId @ ''?p=2'') = Inr d2"
    and p3: "env (k + 2) (base @ ''/t/'' @ postId @ ''?p=3'') = Inr d3"
    and n: "length (pageReplies d1) = 5" "length (pageReplies d2) = 5"
      "length (pageReplies d3) = 3"
  shows "\<exists>info. parseMultiPagePost env base k postId = (Inr info, k + 3)
           \<and> replies info = pageReplies d1 @ pageReplies d2 @ pageReplies d3
           \<and> replyCount (postStatistics info) = 13
           \<and> totalFloors (postStatistics info) = 14
           \<and> map replyId (replies info)
               = map replyId (pageReplies d1) @ map replyId (pageReplies d2)
                 @ map replyId (pageReplies d3)"
proof -
  let ?url = "base @ ''/t/'' @ postId"
  have s2: "showNat 2 = ''2''" and s3: "showNat 3 = ''3''"
    by (simp_all add: showNat.simps)
  have "fetchPages env ?url 3 2 (k + 1) []
          = fetchPages env ?url 3 3 (k + 2) ([] @ pageReplies d2)"
    by (rule fetchPages_fetched) (use p2 s2 in simp_all)
  also have "\<dots> = fetchPages env ?url 3 4 (k + 3) (([] @ pageReplies d2) @ pageReplies d3)"
    by (rule fetchPages_fetched) (use p3 s3 in simp_all)
  also have "\<dots> = (([] @ pageReplies d2) @ pageReplies d3, k + 3)"
    by (rule fetchPages_done) simp
  finally have loop:
    "fetchPages env ?url 3 2 (k + 1) [] = (pageReplies d2 @ pageReplies d3, k + 3)"
    by simp
  show ?thesis
    unfolding parseMultiPagePost_def Let_def
    using first pag loop n by (simp add: parsePostPage_def)
qed

theorem multi_page_merge_witness:
  "\<exists>info. parseMultiPagePost sampleThread ''https://v2ex.com'' 0 ''1'' = (Inr info, 3)
     \<and> replyCount (postStatistics info) = 13
     \<and> totalFloors (postStatistics info) = 14
     \<and> map replyId (replies info)
         = [''1'', ''2'', ''3'', ''4'', ''5'', ''5'', ''6'', ''7'', ''8'', ''9'', ''10'', ''11'', ''12'']"
proof -
  let ?d1 = "threadDoc [''1'', ''2'', ''3'', ''4'', ''5'']"
  let ?d2 = "threadDoc [''5'', ''6'', ''7'', ''8'', ''9'']"
  let ?d3 = "threadDoc [''10'', ''11'', ''12'']"
  have f: "sampleThread 0 (''https://v2ex.com'' @ ''/t/'' @ ''1'') = Inr ?d1"
    "sampleThread (0 + 1) (''https://v2ex.com'' @ ''/t/'' @ ''1'' @ ''?p=2'') = Inr ?d2"
    "sampleThread (0 + 2) (''https://v2ex.com'' @ ''/t/'' @ ''1'' @ ''?p=3'') = Inr ?d3"
    by (simp_all add: sampleThread_def)
  have p: "hasMultiplePages (docPagination ?d1)" "totalPages (docPagination ?d1) = 3"
    by (simp_all add: threadDoc_def threePages_def)
  have n: "length (pageReplies ?d1) = 5" "length (pageReplies ?d2) = 5"
    "length (pageReplies ?d3) = 3"
    by code_simp+
  have i: "map replyId (pageReplies ?d1) @ map replyId (pageReplies ?d2)
             @ map replyId (pageReplies ?d3)
           = [''1'', ''2'', ''3'', ''4'', ''5'', ''5'', ''6'', ''7'', ''8'', ''9'', ''10'', ''11'', ''12'']"
    by code_simp
  from multi_page_merge[OF f(1) p f(2) f(3) n] i show ?thesis
    by auto
qed

text \<open>
  The claim as it stands fails on the sample thread: the pages give 5, 5 and 3 replies, the
  reply 5 stands on the pages 1 and 2, and the merged replies hold two records with the
  id 5.
\<close>

theorem multi_page_merge_duplicate_counterexample:
  "(case fst (parseMultiPagePost sampleThread ''https://v2ex.com'' 0 ''1'') of
      Inl e \<Rightarrow> False
    | Inr info \<Rightarrow>
        replyCount (postStatistics info) = 13
        \<and> map replyId (replies info)
            = [''1'', ''2'', ''3'', ''4'', ''5'', ''5'', ''6'', ''7'', ''8'', ''9'', ''10'', ''11'', ''12'']
        \<and> \<not> distinct (map replyId (replies info)))"
  by code_simp

section \<open>Properties of the batch orchestrator\<close>

lemma notify_fields:
  "results (notify opts ev st) = results st"
  "requests (notify opts ev st) = requests st"
  "calls (notify opts ev st) = calls st @ (if onProgress opts then [ev] else [])"
  by (simp_all add: notify_def)

lemma attempts_success:
  assumes "lessEq tries (retryCount opts)"
    and "parseUserInfo env baseUrl (requests st) name = Inr info"
  shows "attempts env baseUrl opts index count name tries st =
           notify opts
             \<lparr>currentIndex = index, totalUsers = count, progressUsername = Some name,
              progressStatus = Success, progressUserInfo = Some info\<rparr>
             (st\<lparr>requests := requests st + 1,
                 results := results st
                   @ [\<lparr>username = name, success = True, data = Some info, error = None,
                       retryAttempts = None\<rparr>]\<rparr>)"
  using assms by (subst attempts.simps) simp

lemma attempts_retry:
  assumes "lessEq (tries + 1) (retryCount opts)"
    and "parseUserInfo env baseUrl (requests st) name = Inl e"
  shows "attempts env baseUrl opts index count name tries st =
           attempts env baseUrl opts index count name (tries + 1)
             (notify opts
                \<lparr>currentIndex = index, totalUsers = count, progressUsername = Some name,
                 progressStatus = Retry, progressUserInfo = None\<rparr>
                (st\<lparr>requests := requests st + 1\<rparr>))"
proof -
  from assms(1) have "lessEq tries (retryCount opts)"
    by (simp add: lessEq_def split: number.splits)
  with assms show ?thesis by (subst attempts.simps) simp
qed


text \<open>
  Where \<open>retryAttempts <= finalOptions.retryCount\<close> does not hold the loop is not entered.
\<close>

lemma attempts_not_entered:
  "\<not> lessEq tries (retryCount opts) \<Longrightarrow>
     attempts env baseUrl opts index count name tries st = st"
  by (subst attempts.simps) simp

lemma lessEq_Number [simp]: "lessEq a (Number (int n)) \<longleftrightarrow> a \<le> n"
  by (simp add: lessEq_def)




text \<open>
  With a \<open>retryCount\<close> below zero, or one that is not a number, no target is attempted:
  the callback hears \<open>start\<close> for each, and \<open>results\<close> stays empty.
\<close>

lemma processUsers_not_entered:
  "\<not> lessEq 0 (retryCount opts) \<Longrightarrow>
     results (processUsers env baseUrl opts count i names st) = results st"
  by (induction names arbitrary: i st)
    (simp_all add: processUser_def attempts_not_entered notify_fields)

lemma parseMultipleUsers_not_entered:
  "\<not> lessEq 0 (retryCount opts) \<Longrightarrow>
     results (parseMultipleUsers env baseUrl k usernames opts) = []"
  by (simp add: parseMultipleUsers_def notify_fields processUsers_not_entered)




lemma third_attempt_succeeds:
  assumes opts: "retryCount opts = Number 2" "onProgress opts"
    and a1: "parseUserInfo env baseUrl (requests st) name = Inl e1"
    and a2: "parseUserInfo env baseUrl (requests st + 1) name = Inl e2"
    and a3: "parseUserInfo env baseUrl (requests st + 2) name = Inr info"
  shows "results (processUser env baseUrl opts count i name st)
           = results st @ [\<lparr>username = name, success = True, data = Some info, error = None,
                            retryAttempts = None\<rparr>]
       \<and> (\<exists>evs. calls (processUser env baseUrl opts count i name st) = calls st @ evs
              \<and> map progressStatus evs = [Start, Retry, Retry, Success]
              \<and> map progressUsername evs = [Some name, Some name, Some name, Some name])
       \<and> requests (processUser env baseUrl opts count i name st) = requests st + 3"
proof -
  let ?ev = "\<lambda>s u. \<lparr>currentIndex = i + 1, totalUsers = count, progressUsername = Some name,
                    progressStatus = s, progressUserInfo = u\<rparr>"
  let ?s0 = "notify opts (?ev Start None) st"
  let ?s1 = "notify opts (?ev Retry None) (?s0\<lparr>requests := requests ?s0 + 1\<rparr>)"
  let ?s2 = "notify opts (?ev Retry None) (?s1\<lparr>requests := requests ?s1 + 1\<rparr>)"
  have r0: "requests ?s0 = requests st" and r1: "requests ?s1 = requests st + 1"
    and r2: "requests ?s2 = requests st + 2"
    by (simp_all add: notify_fields)
  have "processUser env baseUrl opts count i name st
          = attempts env baseUrl opts (i + 1) count name 0 ?s0"
    by (simp add: processUser_def)
  also have "\<dots> = attempts env baseUrl opts (i + 1) count name (0 + 1) ?s1"
    by (rule attempts_retry[where e = e1]) (use opts a1 r0 in \<open>simp_all add: lessEq_def\<close>)
  also have "\<dots> = attempts env baseUrl opts (i + 1) count name (0 + 1 + 1) ?s2"
    by (rule attempts_retry[where e = e2]) (use opts a2 r1 in \<open>simp_all add: lessEq_def\<close>)
  also have "\<dots> = notify opts (?ev Success (Some info))
                      (?s2\<lparr>requests := requests ?s2 + 1,
                           results := results ?s2
                             @ [\<lparr>username = name, success = True, data = Some info,
                                 error = None, retryAttempts = None\<rparr>]\<rparr>)"
    by (rule attempts_success) (use opts a3 r2 in \<open>simp_all add: lessEq_def\<close>)
  finally show ?thesis
    using opts(2) by (simp add: notify_fields)
qed


text \<open>
  C2, as amended. With \<open>retryCount = 2\<close> and a callback, a target whose first two attempts
  fail and whose third succeeds gets one outcome, a success record with the data and
  without a \<open>retryAttempts\<close> field (only a failure record has one); and the callback is
  called for the target with \<open>start\<close>, \<open>retry\<close>, \<open>retry\<close>, \<open>success\<close>, in this order.
  This holds for the round of any target, whatever was recorded before it, and so for
  the batch of the one target, where the call with \<open>complete\<close> follows.
\<close>

theorem retried_target_succeeds:
  assumes opts: "retryCount opts = Number 2" "onProgress opts"
  shows "(\<forall>st e1 e2 info count i.
            parseUserInfo env baseUrl (requests st) name = Inl e1
          \<and> parseUserInfo env baseUrl (requests st + 1) name = Inl e2
          \<and> parseUserInfo env baseUrl (requests st + 2) name = Inr info \<longrightarrow>
            results (processUser env baseUrl opts count i name st)
              = results st @ [\<lparr>username = name, success = True, data = Some info,
                               error = None, retryAttempts = None\<rparr>]
          \<and> (\<exists>evs. calls (processUser env baseUrl opts count i name st) = calls st @ evs
                 \<and> map progressStatus evs = [Start, Retry, Retry, Success]
                 \<and> map progressUsername evs = [Some name, Some name, Some name, Some name]))
       \<and> (\<forall>k e1 e2 info.
            parseUserInfo env baseUrl k name = Inl e1
          \<and> parseUserInfo env baseUrl (k + 1) name = Inl e2
          \<and> parseUserInfo env baseUrl (k + 2) name = Inr info \<longrightarrow>
            results (parseMultipleUsers env baseUrl k [name] opts)
              = [\<lparr>username = name, success = True, data = Some info,
                  error = None, retryAttempts = None\<rparr>]
          \<and> map progressStatus (calls (parseMultipleUsers env baseUrl k [name] opts))
              = [Start, Retry, Retry, Success, Complete])"
proof (intro conjI allI impI)
  fix st :: batch and e1 e2 info count i
  assume a: "parseUserInfo env baseUrl (requests st) name = Inl e1
          \<and> parseUserInfo env baseUrl (requests st + 1) name = Inl e2
          \<and> parseUserInfo env baseUrl (requests st + 2) name = Inr info"
  from a have a1: "parseUserInfo env baseUrl (requests st) name = Inl e1"
    and a2: "parseUserInfo env baseUrl (requests st + 1) name = Inl e2"
    and a3: "parseUserInfo env baseUrl (requests st + 2) name = Inr info"
    by simp_all
  note t = third_attempt_succeeds[OF opts a1 a2 a3, of count i]
  from t show "results (processUser env baseUrl opts count i name st)
              = results st @ [\<lparr>username = name, success = True, data = Some info,
                               error = None, retryAttempts = None\<rparr>]"
    by (rule conjunct1)
  from t show "\<exists>evs. calls (processUser env baseUrl opts count i name st) = calls st @ evs
                 \<and> map progressStatus evs = [Start, Retry, Retry, Success]
                 \<and> map progressUsername evs = [Some name, Some name, Some name, Some name]"
    by (rule conjunct2[THEN conjunct1])
next
  fix k e1 e2 info
  assume a: "parseUserInfo env baseUrl k name = Inl e1
          \<and> parseUserInfo env baseUrl (k + 1) name = Inl e2
          \<and> parseUserInfo env baseUrl (k + 2) name = Inr info"
  let ?s = "\<lparr>results = [], calls = [], requests = k\<rparr>"
  have a1: "parseUserInfo env baseUrl (requests ?s) name = Inl e1"
    and a2: "parseUserInfo env baseUrl (requests ?s + 1) name = Inl e2"
    and a3: "parseUserInfo env baseUrl (requests ?s + 2) name = Inr info"
    using a by simp_all
  note t = third_attempt_succeeds[OF opts a1 a2 a3, of "length [name]" 0]
  from t have r: "results (processUser env baseUrl opts (length [name]) 0 name ?s)
          = results ?s @ [\<lparr>username = name, success = True, data = Some info,
                            error = None, retryAttempts = None\<rparr>]"
    by (rule conjunct1)
  from t have "\<exists>evs. calls (processUser env baseUrl opts (length [name]) 0 name ?s)
                  = calls ?s @ evs
      \<and> map progressStatus evs = [Start, Retry, Retry, Success]
      \<and> map progressUsername evs = [Some name, Some name, Some name, Some name]"
    by (rule conjunct2[THEN conjunct1])
  then obtain evs where
    c: "calls (processUser env baseUrl opts (length [name]) 0 name ?s) = calls ?s @ evs"
    and s: "map progressStatus evs = [Start, Retry, Retry, Success]"
    by (elim exE conjE)
  have p: "parseMultipleUsers env baseUrl k [name] opts
             = notify opts
                 \<lparr>currentIndex = length [name], totalUsers = length [name],
                  progressUsername = None, progressStatus = Complete, progressUserInfo = None\<rparr>
                 (processUser env baseUrl opts (length [name]) 0 name ?s)"
    by (simp add: parseMultipleUsers_def)
  show "results (parseMultipleUsers env baseUrl k [name] opts)
          = [\<lparr>username = name, success = True, data = Some info,
              error = None, retryAttempts = None\<rparr>]"
    unfolding p notify_fields r by simp
  show "map progressStatus (calls (parseMultipleUsers env baseUrl k [name] opts))
          = [Start, Retry, Retry, Success, Complete]"
    unfolding p notify_fields c using s opts(2) by simp
qed

theorem retried_target_succeeds_witness:
  "results (parseMultipleUsers flakySite ''https://v2ex.com'' 0 [''Livid'']
      \<lparr>retryCount = Number 2, onProgress = True\<rparr>)
     = [\<lparr>username = ''Livid'', success = True,
         data = Some (UserInfo
           \<lparr>userUrl = ''https://v2ex.com/member/Livid'',
            userSocialLinks = \<lparr>twitter = None, github = None, telegram = None,
                                location = None, website = None\<rparr>,
            userSolanaAddress = None, userSolanaDomain = None\<rparr>),
         error = None, retryAttempts = None\<rparr>]
   \<and> map progressStatus (calls (parseMultipleUsers flakySite ''https://v2ex.com'' 0 [''Livid'']
      \<lparr>retryCount = Number 2, onProgress = True\<rparr>)) = [Start, Retry, Retry, Success, Complete]"
proof -
  let ?o = "\<lparr>retryCount = Number 2, onProgress = True\<rparr>"
  let ?i = "UserInfo
           \<lparr>userUrl = ''https://v2ex.com/member/Livid'',
            userSocialLinks = \<lparr>twitter = None, github = None, telegram = None,
                                location = None, website = None\<rparr>,
            userSolanaAddress = None, userSolanaDomain = None\<rparr>"
  have o: "retryCount ?o = Number 2" "onProgress ?o"
    by simp_all
  have a: "parseUserInfo flakySite ''https://v2ex.com'' 0 ''Livid''
             = Inl (ParseV2exPageFailed (TransportError ''timeout of 10000ms exceeded''))"
    "parseUserInfo flakySite ''https://v2ex.com'' (0 + 1) ''Livid''
             = Inl (ParseV2exPageFailed (TransportError ''timeout of 10000ms exceeded''))"
    by (simp_all add: parseUserInfo_def parseV2exPage_def flakySite_def)
  have b: "parseUserInfo flakySite ''https://v2ex.com'' (0 + 2) ''Livid'' = Inr ?i"
    by code_simp
  from retried_target_succeeds[OF o, THEN conjunct2, rule_format,
      OF conjI[OF a(1) conjI[OF a(2) b]]]
  show ?thesis .
qed

text \<open>
  The claim as it stands fails on the outcome: on the site whose first two requests time
  out, the one outcome is a success and has no \<open>retryAttempts\<close> field, while the callback
  is called as claimed, and once more with \<open>complete\<close> when the batch ends.
\<close>

theorem retried_target_outcome_counterexample:
  "map success (results (parseMultipleUsers flakySite ''https://v2ex.com'' 0 [''Livid'']
      \<lparr>retryCount = Number 2, onProgress = True\<rparr>)) = [True]
   \<and> map retryAttempts (results (parseMultipleUsers flakySite ''https://v2ex.com'' 0 [''Livid'']
      \<lparr>retryCount = Number 2, onProgress = True\<rparr>)) = [None]
   \<and> map retryAttempts (results (parseMultipleUsers flakySite ''https://v2ex.com'' 0 [''Livid'']
      \<lparr>retryCount = Number 2, onProgress = True\<rparr>)) \<noteq> [Some 2]
   \<and> map progressStatus (calls (parseMultipleUsers flakySite ''https://v2ex.com'' 0 [''Livid'']
      \<lparr>retryCount = Number 2, onProgress = True\<rparr>)) = [Start, Retry, Retry, Success, Complete]"
  by code_simp

end
